theory Spec2Isabelle
  imports Main "HOL-Library.AList"
begin

section \<open>The ssllabs client: data model\<close>

text \<open>
  The development follows \<^verbatim>\<open>src/ssllabs/client.py\<close>. Python \<^verbatim>\<open>str\<close> values are
  modelled as \<^typ>\<open>string\<close>, read as the UTF-8 bytes of the text: every delimiter the code and
  the URL library look for is ASCII, and the percent-encoding of \<^verbatim>\<open>urlencode\<close> works on the
  UTF-8 bytes.
\<close>

text \<open>
  The value returned by \<^verbatim>\<open>request.json()\<close>: a decoded JSON document. A dictionary is
  an association list read with \<^const>\<open>map_of\<close>; numbers are kept as integers, the client
  never looks at one.
\<close>

datatype pyval =
    PNone
  | PBool bool
  | PInt int
  | PStr string
  | PList "pyval list"
  | PDict "(string \<times> pyval) list"

text \<open>
  The exceptions that can leave the client. \<open>'k\<close> is the type of the error classes stored in
  \<^verbatim>\<open>errors.codes\<close> (module \<^verbatim>\<open>ssllabs.errors\<close>, which is taken as a parameter);
  \<open>ResponseError k reason\<close> is the instance \<^verbatim>\<open>errors.codes[code](reason)\<close>.
\<close>

datatype 'k exn =
    ValueError string
  | HTTPError int string
  | ResponseError 'k string
  | NoHostError string
  | KeyError string
  | TypeError
  | OtherError string

text \<open>
  What the three calls \<^verbatim>\<open>requests.get(url)\<close>, \<^verbatim>\<open>request.raise_for_status()\<close> and
  \<^verbatim>\<open>request.json()\<close> do for one request:
  \<^item> \<open>Body data\<close>: all three return, the last one with \<open>data\<close>;
  \<^item> \<open>Status code reason\<close>: \<^verbatim>\<open>raise_for_status\<close> raises \<^verbatim>\<open>requests.HTTPError\<close>, whose
    response has this \<^verbatim>\<open>status_code\<close> and \<^verbatim>\<open>reason\<close>;
  \<^item> \<open>Broken msg\<close>: one of the calls raises an exception that is not an
    \<^verbatim>\<open>HTTPError\<close> (a connection error, a body that is not JSON).
\<close>

datatype reply =
    Body pyval
  | Status int string
  | Broken string

text \<open>
  The session object. The four fields are the private attributes \<^verbatim>\<open>__scheme\<close>,
  \<^verbatim>\<open>__netloc\<close>, \<^verbatim>\<open>__path\<close> and \<^verbatim>\<open>__host\<close>; \<open>'h\<close> is the type of
  \<^verbatim>\<open>ssllabs.host.Host\<close> objects and \<^const>\<open>None\<close> is Python's \<^verbatim>\<open>None\<close>.
\<close>

record 'h Client =
  Client_scheme :: string
  Client_netloc :: string
  Client_path :: string
  Client_host :: "'h option"

section \<open>The URL library\<close>

text \<open>
  \<^verbatim>\<open>urlsplit\<close>, \<^verbatim>\<open>urlunsplit\<close> and \<^verbatim>\<open>urlencode\<close> of \<^verbatim>\<open>urllib.parse\<close> (reached
  through \<^verbatim>\<open>six.moves\<close>), after CPython 3.12.3 (\<^verbatim>\<open>Lib/urllib/parse.py\<close>), for \<^verbatim>\<open>str\<close>
  arguments and the defaults of the optional parameters.
\<close>

record SplitResult =
  scheme_of :: string
  netloc_of :: string
  path_of :: string
  query_of :: string
  fragment_of :: string

text \<open>
  Two checks of \<^verbatim>\<open>urlsplit\<close> go through the \<^verbatim>\<open>ipaddress\<close>, \<^verbatim>\<open>re\<close> and
  \<^verbatim>\<open>unicodedata\<close> modules: \<^verbatim>\<open>_check_bracketed_netloc\<close> and \<^verbatim>\<open>_checknetloc\<close>. They
  only read the network location, and either return or raise \<^verbatim>\<open>ValueError\<close>. They are
  parameters of the model: each maps a network location to the message of the error it
  raises, if it raises one.
\<close>

record netloc_checks =
  check_bracketed_netloc :: "string \<Rightarrow> string option"
  checknetloc :: "string \<Rightarrow> string option"

text \<open>\<^verbatim>\<open>s.find(c)\<close>, with \<^const>\<open>None\<close> for \<^verbatim>\<open>-1\<close>.\<close>

definition find_char :: "char \<Rightarrow> string \<Rightarrow> nat option" where
  "find_char c s = (if c \<in> set s then Some (length (takeWhile (\<lambda>x. x \<noteq> c) s)) else None)"

text \<open>\<^verbatim>\<open>s.split(c, 1)\<close> for a string \<open>s\<close> that contains \<open>c\<close>.\<close>

definition split1 :: "char \<Rightarrow> string \<Rightarrow> string \<times> string" where
  "split1 c s = (takeWhile (\<lambda>x. x \<noteq> c) s, drop 1 (dropWhile (\<lambda>x. x \<noteq> c) s))"

definition lstrip :: "(char \<Rightarrow> bool) \<Rightarrow> string \<Rightarrow> string" where
  "lstrip P s = dropWhile P s"

definition rstrip :: "(char \<Rightarrow> bool) \<Rightarrow> string \<Rightarrow> string" where
  "rstrip P s = rev (dropWhile P (rev s))"

definition scheme_chars :: string where
  "scheme_chars = ''abcdefghijklmnopqrstuvwxyzABCDEFGHIJKLMNOPQRSTUVWXYZ0123456789+-.''"

definition ascii_alpha :: "char \<Rightarrow> bool" where
  "ascii_alpha c \<longleftrightarrow> c \<in> set ''abcdefghijklmnopqrstuvwxyzABCDEFGHIJKLMNOPQRSTUVWXYZ''"

definition lower_char :: "char \<Rightarrow> char" where
  "lower_char c =
     (if c \<in> set ''ABCDEFGHIJKLMNOPQRSTUVWXYZ'' then char_of (of_char c + (32 :: nat)) else c)"

text \<open>\<^verbatim>\<open>_WHATWG_C0_CONTROL_OR_SPACE\<close>: the characters up to and including the space.\<close>

definition c0_control_or_space :: "char \<Rightarrow> bool" where
  "c0_control_or_space c \<longleftrightarrow> (of_char c :: nat) \<le> 32"

text \<open>\<^verbatim>\<open>_UNSAFE_URL_BYTES_TO_REMOVE\<close>: tab, carriage return, line feed.\<close>

definition unsafe_url_byte :: "char \<Rightarrow> bool" where
  "unsafe_url_byte c \<longleftrightarrow> (of_char c :: nat) \<in> {9, 13, 10}"

text \<open>
  \<^verbatim>\<open>_splitnetloc(url, 2)\<close>: the network location runs from position 2 to the earliest of
  \<^verbatim>\<open>/\<close>, \<^verbatim>\<open>?\<close> and \<^verbatim>\<open>#\<close>, or to the end.
\<close>

definition splitnetloc2 :: "string \<Rightarrow> string \<times> string" where
  "splitnetloc2 url =
     (takeWhile (\<lambda>c. c \<notin> set ''/?#'') (drop 2 url), dropWhile (\<lambda>c. c \<notin> set ''/?#'') (drop 2 url))"

text \<open>The scheme, when the text before the first colon is one, and the rest.\<close>

definition split_scheme :: "string \<Rightarrow> string \<times> string" where
  "split_scheme url =
     (case find_char CHR '':'' url of
        None \<Rightarrow> ('''', url)
      | Some i \<Rightarrow>
          if 0 < i \<and> ascii_alpha (url ! 0) \<and> (\<forall>c \<in> set (take i url). c \<in> set scheme_chars)
          then (map lower_char (take i url), drop (i + 1) url)
          else ('''', url))"

definition urlsplit :: "netloc_checks \<Rightarrow> string \<Rightarrow> 'k exn + SplitResult" where
  "urlsplit lib url0 =
     (let url = lstrip c0_control_or_space url0;
          url = filter (\<lambda>c. \<not> unsafe_url_byte c) url;
          (scheme, url) = split_scheme url;
          (netloc, url) = (if take 2 url = ''//'' then splitnetloc2 url else ('''', url));
          (url, fragment) = (if CHR ''#'' \<in> set url then split1 CHR ''#'' url else (url, ''''));
          (url, query) = (if CHR ''?'' \<in> set url then split1 CHR ''?'' url else (url, ''''))
      in if (CHR ''['' \<in> set netloc \<and> CHR '']'' \<notin> set netloc) \<or>
            (CHR '']'' \<in> set netloc \<and> CHR ''['' \<notin> set netloc)
         then Inl (ValueError ''Invalid IPv6 URL'')
         else (case (if CHR ''['' \<in> set netloc \<and> CHR '']'' \<in> set netloc
                     then check_bracketed_netloc lib netloc else None) of
                 Some msg \<Rightarrow> Inl (ValueError msg)
               | None \<Rightarrow>
                   (case checknetloc lib netloc of
                      Some msg \<Rightarrow> Inl (ValueError msg)
                    | None \<Rightarrow>
                        Inr \<lparr>scheme_of = scheme, netloc_of = netloc, path_of = url,
                             query_of = query, fragment_of = fragment\<rparr>)))"

definition uses_netloc :: "string list" where
  "uses_netloc = ['''', ''ftp'', ''http'', ''gopher'', ''nntp'', ''telnet'',
     ''imap'', ''wais'', ''file'', ''mms'', ''https'', ''shttp'',
     ''snews'', ''prospero'', ''rtsp'', ''rtsps'', ''rtspu'', ''rsync'',
     ''svn'', ''svn+ssh'', ''sftp'', ''nfs'', ''git'', ''git+ssh'',
     ''ws'', ''wss'', ''itms-services'']"

definition urlunsplit :: "string \<times> string \<times> string \<times> string \<times> string \<Rightarrow> string" where
  "urlunsplit components =
     (case components of (scheme, netloc, url, query, fragment) \<Rightarrow>
        let url = (if netloc \<noteq> [] \<or> (scheme \<noteq> [] \<and> scheme \<in> set uses_netloc \<and> take 2 url \<noteq> ''//'')
                   then ''//'' @ netloc @ (if url \<noteq> [] \<and> take 1 url \<noteq> ''/'' then ''/'' @ url else url)
                   else url);
            url = (if scheme \<noteq> [] then scheme @ '':'' @ url else url);
            url = (if query \<noteq> [] then url @ ''?'' @ query else url);
            url = (if fragment \<noteq> [] then url @ ''#'' @ fragment else url)
        in url)"

definition always_safe :: "char \<Rightarrow> bool" where
  "always_safe c \<longleftrightarrow>
     c \<in> set ''ABCDEFGHIJKLMNOPQRSTUVWXYZabcdefghijklmnopqrstuvwxyz0123456789_.-~''"

definition hexdigit :: "nat \<Rightarrow> char" where
  "hexdigit n = ''0123456789ABCDEF'' ! n"

definition quoter :: "string \<Rightarrow> char \<Rightarrow> string" where
  "quoter safe b =
     (if always_safe b \<or> b \<in> set safe then [b]
      else [CHR ''%'', hexdigit (of_char b div 16), hexdigit (of_char b mod 16)])"

definition quote :: "string \<Rightarrow> string \<Rightarrow> string" where
  "quote safe s = concat (map (quoter safe) s)"

text \<open>\<^verbatim>\<open>s.replace(a, b)\<close> for single characters.\<close>

definition replace_char :: "char \<Rightarrow> char \<Rightarrow> string \<Rightarrow> string" where
  "replace_char a b s = map (\<lambda>c. if c = a then b else c) s"

definition quote_plus :: "string \<Rightarrow> string" where
  "quote_plus s =
     (if CHR '' '' \<notin> set s then quote [] s
      else replace_char CHR '' '' CHR ''+'' (quote '' '' s))"

fun str_join :: "string \<Rightarrow> string list \<Rightarrow> string" where
  "str_join sep [] = []"
| "str_join sep [x] = x"
| "str_join sep (x # y # ys) = x @ sep @ str_join sep (y # ys)"

definition urlencode :: "(string \<times> string) list \<Rightarrow> string" where
  "urlencode query = str_join ''&'' (map (\<lambda>(k, v). quote_plus k @ ''='' @ quote_plus v) query)"

section \<open>The endpoint configuration\<close>

text \<open>The getter of the \<^verbatim>\<open>entrypoint\<close> property.\<close>

definition entrypoint :: "'h Client \<Rightarrow> string" where
  "entrypoint self = urlunsplit (Client_scheme self, Client_netloc self, Client_path self, '''', '''')"

text \<open>
  The setter of the \<^verbatim>\<open>entrypoint\<close> property: the updated session, or the exception of
  \<^verbatim>\<open>urlsplit\<close>, raised before any attribute is assigned.
\<close>

definition entrypoint_set :: "netloc_checks \<Rightarrow> 'h Client \<Rightarrow> string \<Rightarrow> 'k exn + 'h Client" where
  "entrypoint_set lib self val =
     (case urlsplit lib val of
        Inl e \<Rightarrow> Inl e
      | Inr parts \<Rightarrow>
          Inr (self\<lparr>Client_scheme := scheme_of parts,
                    Client_netloc := netloc_of parts,
                    Client_path := rstrip (\<lambda>c. c \<in> set ''/'') (path_of parts)\<rparr>))"

text \<open>
  \<^verbatim>\<open>Client.__init__\<close>: the setter runs on the new object, whose attributes do not exist
  yet (the setter does not read them), then \<^verbatim>\<open>__host\<close> is set to \<^verbatim>\<open>None\<close>.
\<close>

definition Client_init :: "netloc_checks \<Rightarrow> string \<Rightarrow> 'k exn + 'h Client" where
  "Client_init lib entrypoint_arg =
     (case entrypoint_set lib
             \<lparr>Client_scheme = '''', Client_netloc = '''', Client_path = '''', Client_host = None\<rparr>
             entrypoint_arg of
        Inl e \<Rightarrow> Inl e
      | Inr self \<Rightarrow> Inr (self\<lparr>Client_host := None\<rparr>))"

section \<open>The analysis driver\<close>

text \<open>The two dictionaries built at the top of \<^verbatim>\<open>Client.analyze\<close>, in insertion order.\<close>

definition analyze_query :: "string \<Rightarrow> bool \<Rightarrow> bool \<Rightarrow> (string \<times> string) list" where
  "analyze_query host publish ignoreMismatch =
     (let query = [(''host'', host), (''all'', ''done'')];
          query = (if publish then AList.update ''publish'' ''on'' query else query);
          query = (if ignoreMismatch then AList.update ''ignoreMismatch'' ''on'' query else query)
      in query)"

definition analyze_startnewquery :: "(string \<times> string) list \<Rightarrow> (string \<times> string) list" where
  "analyze_startnewquery query = fold (\<lambda>(k, v). AList.update k v) query [(''startNew'', ''on'')]"

text \<open>\<^verbatim>\<open>data['status']\<close>: only a dictionary can be subscripted with a string.\<close>

definition subscript_status :: "pyval \<Rightarrow> 'k exn + pyval" where
  "subscript_status data =
     (case data of
        PDict items \<Rightarrow>
          (case map_of items ''status'' of
             None \<Rightarrow> Inl (KeyError ''status'')
           | Some v \<Rightarrow> Inr v)
      | _ \<Rightarrow> Inl TypeError)"

text \<open>
  The loop condition \<^verbatim>\<open>data['status'] in {'IN_PROGRESS', 'DNS'}\<close>: membership in a set
  hashes the value, which a list or a dictionary refuses.
\<close>

definition polling :: "pyval \<Rightarrow> 'k exn + bool" where
  "polling data =
     (case subscript_status data of
        Inl e \<Rightarrow> Inl e
      | Inr v \<Rightarrow>
          (case v of
             PList _ \<Rightarrow> Inl TypeError
           | PDict _ \<Rightarrow> Inl TypeError
           | _ \<Rightarrow> Inr (v = PStr ''IN_PROGRESS'' \<or> v = PStr ''DNS'')))"

text \<open>One request: \<^verbatim>\<open>requests.get\<close>, \<^verbatim>\<open>raise_for_status\<close>, \<^verbatim>\<open>json\<close>.\<close>

definition fetch :: "reply \<Rightarrow> 'k exn + pyval" where
  "fetch r =
     (case r of
        Body data \<Rightarrow> Inr data
      | Status code reason \<Rightarrow> Inl (HTTPError code reason)
      | Broken msg \<Rightarrow> Inl (OtherError msg))"

text \<open>
  The \<^verbatim>\<open>except requests.HTTPError as e\<close> clause: what leaves the generator when \<open>e\<close> was
  raised inside the \<^verbatim>\<open>try\<close> block.
\<close>

definition handler :: "(int \<rightharpoonup> 'k) \<Rightarrow> 'k exn \<Rightarrow> 'k exn" where
  "handler codes e =
     (case e of
        HTTPError code reason \<Rightarrow>
          (case codes code of
             Some cls \<Rightarrow> ResponseError cls reason
           | None \<Rightarrow> HTTPError code reason)
      | _ \<Rightarrow> e)"

text \<open>
  The generator returned by \<^verbatim>\<open>Client.analyze\<close> is not started yet, or suspended at its
  \<^verbatim>\<open>yield\<close> with the local variable \<^verbatim>\<open>url\<close> (the polling URL) in its frame, or
  finished. One call of \<^verbatim>\<open>next\<close> runs it to its next \<^verbatim>\<open>yield\<close>, to its end
  (\<^verbatim>\<open>StopIteration\<close>) or to an exception; unless it is finished already, it makes exactly
  one request on the way.
\<close>

datatype gen = Created | Suspended string | Finished

datatype ('k, 'h) event = Yield 'h | StopIteration | Raise "'k exn"

text \<open>
  The code from the loop test on, with \<open>data\<close> just received: \<^verbatim>\<open>yield Host(data)\<close>, or
  \<^verbatim>\<open>self.__host = Host(data)\<close> and the end of the generator. The test is inside the
  \<^verbatim>\<open>try\<close> block.
\<close>

definition analyze_loop ::
  "(int \<rightharpoonup> 'k) \<Rightarrow> (pyval \<Rightarrow> 'h) \<Rightarrow> 'h Client \<Rightarrow> string \<Rightarrow> pyval \<Rightarrow> ('k, 'h) event \<times> gen \<times> 'h Client" where
  "analyze_loop codes Host self url data =
     (case polling data of
        Inl e \<Rightarrow> (Raise (handler codes e), Finished, self)
      | Inr True \<Rightarrow> (Yield (Host data), Suspended url, self)
      | Inr False \<Rightarrow> (StopIteration, Finished, self\<lparr>Client_host := Some (Host data)\<rparr>))"

text \<open>
  One call of \<^verbatim>\<open>next\<close> on the generator, \<open>r\<close> being what the transport does with the
  request. The result is the URLs requested (one, or none), the event, the generator and the
  session.
\<close>

definition analyze_next ::
  "(int \<rightharpoonup> 'k) \<Rightarrow> (pyval \<Rightarrow> 'h) \<Rightarrow> string \<Rightarrow> bool \<Rightarrow> bool \<Rightarrow> gen \<Rightarrow> 'h Client \<Rightarrow> reply
     \<Rightarrow> string list \<times> ('k, 'h) event \<times> gen \<times> 'h Client" where
  "analyze_next codes Host host publish ignoreMismatch g self r =
     (case g of
        Created \<Rightarrow>
          (let path = Client_path self @ ''/'' @ ''analyze'';
               query = analyze_query host publish ignoreMismatch;
               startnewquery = analyze_startnewquery query;
               url0 = urlunsplit (Client_scheme self, Client_netloc self, path, urlencode startnewquery, '''')
           in (case fetch r of
                 Inl e \<Rightarrow> ([url0], Raise (handler codes e), Finished, self)
               | Inr data \<Rightarrow>
                   (let url = urlunsplit (Client_scheme self, Client_netloc self, path, urlencode query, '''')
                    in ([url0], analyze_loop codes Host self url data))))
      | Suspended url \<Rightarrow>
          (case fetch r of
             Inl e \<Rightarrow> ([url], Raise (handler codes e), Finished, self)
           | Inr data \<Rightarrow> ([url], analyze_loop codes Host self url data))
      | Finished \<Rightarrow> ([], StopIteration, Finished, self))"

text \<open>
  A run of the driver: the caller iterates the generator (\<^verbatim>\<open>for data in client.analyze(...)\<close>)
  while the transport answers the requests with the replies of a script, in order. The run
  records the URLs requested, the snapshots yielded, how the iteration ended and the session
  afterwards. \<open>Pending\<close> is the end of the script: the generator is left not started, or
  suspended at its \<^verbatim>\<open>yield\<close>.
\<close>

datatype 'k ending = Returned | Raised "'k exn" | Pending

record ('k, 'h) run =
  requested :: "string list"
  yielded :: "'h list"
  ending :: "'k ending"
  session :: "'h Client"

fun iterate ::
  "(int \<rightharpoonup> 'k) \<Rightarrow> (pyval \<Rightarrow> 'h) \<Rightarrow> string \<Rightarrow> bool \<Rightarrow> bool \<Rightarrow> gen \<Rightarrow> 'h Client \<Rightarrow> reply list
     \<Rightarrow> ('k, 'h) run" where
  "iterate codes Host host publish ignoreMismatch g self [] =
     \<lparr>requested = [], yielded = [], ending = Pending, session = self\<rparr>"
| "iterate codes Host host publish ignoreMismatch g self (r # rs) =
     (case analyze_next codes Host host publish ignoreMismatch g self r of
        (urls, Yield snapshot, g', self') \<Rightarrow>
          (let rest = iterate codes Host host publish ignoreMismatch g' self' rs
           in rest\<lparr>requested := urls @ requested rest, yielded := snapshot # yielded rest\<rparr>)
      | (urls, StopIteration, g', self') \<Rightarrow>
          \<lparr>requested = urls, yielded = [], ending = Returned, session = self'\<rparr>
      | (urls, Raise e, g', self') \<Rightarrow>
          \<lparr>requested = urls, yielded = [], ending = Raised e, session = self'\<rparr>)"

definition analyze ::
  "(int \<rightharpoonup> 'k) \<Rightarrow> (pyval \<Rightarrow> 'h) \<Rightarrow> 'h Client \<Rightarrow> string \<Rightarrow> bool \<Rightarrow> bool \<Rightarrow> reply list \<Rightarrow> ('k, 'h) run" where
  "analyze codes Host self host publish ignoreMismatch rs =
     iterate codes Host host publish ignoreMismatch Created self rs"

text \<open>
  The \<^verbatim>\<open>host\<close> property. It returns its result and the session, which it leaves as it is.
\<close>

definition host :: "'h Client \<Rightarrow> ('k exn + 'h) \<times> 'h Client" where
  "host self =
     (case Client_host self of
        None \<Rightarrow> (Inl (NoHostError ''analyze must be run to completion before the host property may be accessed''), self)
      | Some h \<Rightarrow> (Inr h, self))"

section \<open>Notions used to state the properties\<close>

text \<open>
  The two URLs that \<^const>\<open>analyze_next\<close> builds when the generator starts: the one of the
  first request, and the one kept in the frame for every later request.
\<close>

definition start_url :: "'h Client \<Rightarrow> string \<Rightarrow> bool \<Rightarrow> bool \<Rightarrow> string" where
  "start_url self h publish ignoreMismatch =
     urlunsplit (Client_scheme self, Client_netloc self, Client_path self @ ''/'' @ ''analyze'',
                 urlencode (analyze_startnewquery (analyze_query h publish ignoreMismatch)), '''')"

definition poll_url :: "'h Client \<Rightarrow> string \<Rightarrow> bool \<Rightarrow> bool \<Rightarrow> string" where
  "poll_url self h publish ignoreMismatch =
     urlunsplit (Client_scheme self, Client_netloc self, Client_path self @ ''/'' @ ''analyze'',
                 urlencode (analyze_query h publish ignoreMismatch), '''')"

text \<open>
  For a generator that is not finished: the URL of its next request, the URL of the requests
  after that one, and the generator after it has yielded for each element of \<open>ds\<close>.
\<close>

definition next_url :: "gen \<Rightarrow> 'h Client \<Rightarrow> string \<Rightarrow> bool \<Rightarrow> bool \<Rightarrow> string" where
  "next_url g self h publish ignoreMismatch =
     (case g of Suspended u \<Rightarrow> u | _ \<Rightarrow> start_url self h publish ignoreMismatch)"

definition later_url :: "gen \<Rightarrow> 'h Client \<Rightarrow> string \<Rightarrow> bool \<Rightarrow> bool \<Rightarrow> string" where
  "later_url g self h publish ignoreMismatch =
     (case g of Suspended u \<Rightarrow> u | _ \<Rightarrow> poll_url self h publish ignoreMismatch)"

definition resumed :: "'a list \<Rightarrow> gen \<Rightarrow> 'h Client \<Rightarrow> string \<Rightarrow> bool \<Rightarrow> bool \<Rightarrow> gen" where
  "resumed ds g self h publish ignoreMismatch =
     (if ds = [] then g else Suspended (later_url g self h publish ignoreMismatch))"

text \<open>
  The query parameters of a request, read off its URL as a server does (RFC 3986 and the
  form encoding): the query is the text between the first \<^verbatim>\<open>?\<close> and the fragment; its
  fields are separated by \<^verbatim>\<open>&\<close>; in a field the name ends at the first \<^verbatim>\<open>=\<close>; in a
  name and in a value \<^verbatim>\<open>+\<close> stands for a space and \<^verbatim>\<open>%XX\<close> for the byte with that
  hexadecimal code.
\<close>

definition url_query :: "string \<Rightarrow> string" where
  "url_query url = drop 1 (dropWhile (\<lambda>c. c \<noteq> CHR ''?'') (takeWhile (\<lambda>c. c \<noteq> CHR ''#'') url))"

fun split_on :: "char \<Rightarrow> string \<Rightarrow> string list" where
  "split_on sep [] = [[]]"
| "split_on sep (c # cs) =
     (if c = sep then [] # split_on sep cs
      else (c # hd (split_on sep cs)) # tl (split_on sep cs))"

definition unhex :: "char \<Rightarrow> nat option" where
  "unhex c = map_of (zip ''0123456789ABCDEFabcdef'' [0, 1, 2, 3, 4, 5, 6, 7, 8, 9, 10, 11, 12, 13, 14, 15, 10, 11, 12, 13, 14, 15]) c"

fun unquote_plus :: "string \<Rightarrow> string" where
  "unquote_plus (c # x # y # cs) =
     (if c = CHR ''%'' then
        (case (unhex x, unhex y) of
           (Some a, Some b) \<Rightarrow> char_of (16 * a + b) # unquote_plus cs
         | _ \<Rightarrow> c # unquote_plus (x # y # cs))
      else (if c = CHR ''+'' then CHR '' '' else c) # unquote_plus (x # y # cs))"
| "unquote_plus (c # cs) = (if c = CHR ''+'' then CHR '' '' else c) # unquote_plus cs"
| "unquote_plus [] = []"

definition request_params :: "string \<Rightarrow> (string \<times> string) list" where
  "request_params url =
     map (\<lambda>field. (unquote_plus (takeWhile (\<lambda>c. c \<noteq> CHR ''='') field),
                   unquote_plus (drop 1 (dropWhile (\<lambda>c. c \<noteq> CHR ''='') field))))
         (filter (\<lambda>field. field \<noteq> []) (split_on CHR ''&'' (url_query url)))"

text \<open>
  What the setter guarantees of the three URL attributes (lemma \<open>entrypoint_set_configured\<close>):
  none contains a \<^verbatim>\<open>?\<close> or a \<^verbatim>\<open>#\<close>, which \<^verbatim>\<open>urlsplit\<close> has put into the query and
  the fragment.
\<close>

definition configured :: "'h Client \<Rightarrow> bool" where
  "configured self \<longleftrightarrow>
     (\<forall>c \<in> set (Client_scheme self @ Client_netloc self @ Client_path self).
        c \<noteq> CHR ''?'' \<and> c \<noteq> CHR ''#'')"

text \<open>
  The checks that \<^const>\<open>urlsplit\<close> makes of the network location: the brackets are
  balanced, and neither of the two library checks raises.
\<close>

definition netloc_accepted :: "netloc_checks \<Rightarrow> string \<Rightarrow> bool" where
  "netloc_accepted lib n \<longleftrightarrow>
     (CHR ''['' \<in> set n \<longleftrightarrow> CHR '']'' \<in> set n)
     \<and> (CHR ''['' \<in> set n \<and> CHR '']'' \<in> set n \<longrightarrow> check_bracketed_netloc lib n = None)
     \<and> checknetloc lib n = None"

section \<open>One step of the generator\<close>

lemma polling_status_str:
  "subscript_status d = (Inr (PStr s) :: 'k exn + pyval) \<Longrightarrow>
     (polling d :: 'k exn + bool) = Inr (s = ''IN_PROGRESS'' \<or> s = ''DNS'')"
  by (simp add: polling_def)

lemma handler_polling:
  "(polling d :: 'k exn + bool) = Inl e \<Longrightarrow> handler codes e = e"
  by (auto simp: polling_def subscript_status_def handler_def
           split: pyval.splits option.splits sum.splits)

lemma polling_cases:
  "(polling d :: 'k exn + bool) = Inr True \<or> (polling d :: 'k exn + bool) = Inr False
     \<or> (\<exists>e. (polling d :: 'k exn + bool) = Inl e)"
  by (cases "polling d :: 'k exn + bool") auto

lemma next_Body:
  "g \<noteq> Finished \<Longrightarrow> analyze_next codes Host h p i g self (Body d) =
     ([next_url g self h p i], analyze_loop codes Host self (later_url g self h p i) d)"
  by (cases g)
     (simp_all add: analyze_next_def fetch_def start_url_def poll_url_def next_url_def
        later_url_def Let_def)

lemma next_fail:
  "g \<noteq> Finished \<Longrightarrow> fetch r = Inl e \<Longrightarrow> analyze_next codes Host h p i g self r =
     ([next_url g self h p i], Raise (handler codes e), Finished, self)"
  by (cases g) (simp_all add: analyze_next_def start_url_def next_url_def Let_def)

lemma iterate_polling_step:
  "g \<noteq> Finished \<Longrightarrow> (polling d :: 'k exn + bool) = Inr True \<Longrightarrow>
   iterate (codes :: int \<rightharpoonup> 'k) Host h p i g self (Body d # rs) =
     (let rest = iterate codes Host h p i (Suspended (later_url g self h p i)) self rs
      in rest\<lparr>requested := next_url g self h p i # requested rest, yielded := Host d # yielded rest\<rparr>)"
  by (simp add: next_Body analyze_loop_def)

lemma iterate_terminal_step:
  "g \<noteq> Finished \<Longrightarrow> (polling d :: 'k exn + bool) = Inr False \<Longrightarrow>
   iterate (codes :: int \<rightharpoonup> 'k) Host h p i g self (Body d # rs) =
     \<lparr>requested = [next_url g self h p i], yielded = [], ending = Returned,
      session = self\<lparr>Client_host := Some (Host d)\<rparr>\<rparr>"
  by (simp add: next_Body analyze_loop_def)

lemma iterate_bad_status_step:
  "g \<noteq> Finished \<Longrightarrow> (polling d :: 'k exn + bool) = Inl e \<Longrightarrow>
   iterate (codes :: int \<rightharpoonup> 'k) Host h p i g self (Body d # rs) =
     \<lparr>requested = [next_url g self h p i], yielded = [], ending = Raised e, session = self\<rparr>"
  by (simp add: next_Body analyze_loop_def handler_polling)

lemma iterate_fail_step:
  "g \<noteq> Finished \<Longrightarrow> fetch r = Inl e \<Longrightarrow>
   iterate codes Host h p i g self (r # rs) =
     \<lparr>requested = [next_url g self h p i], yielded = [], ending = Raised (handler codes e),
      session = self\<rparr>"
  by (simp add: next_fail)

section \<open>Runs\<close>

text \<open>A run that does not return leaves the whole session as it was.\<close>

lemma iterate_session:
  "g \<noteq> Finished \<Longrightarrow> ending (iterate codes Host h p i g self rs) \<noteq> Returned \<Longrightarrow>
     session (iterate codes Host h p i g self rs) = self"
proof (induction rs arbitrary: g)
  case Nil
  then show ?case by simp
next
  case (Cons r rs)
  show ?case
  proof (cases r)
    case (Body d)
    from polling_cases [of d, where ?'k = 'a] show ?thesis
    proof (elim disjE exE)
      assume "(polling d :: 'a exn + bool) = Inr True"
      with Cons Body show ?thesis
        by (simp add: iterate_polling_step Let_def del: iterate.simps)
    next
      assume "(polling d :: 'a exn + bool) = Inr False"
      with Cons Body show ?thesis
        by (simp add: iterate_terminal_step del: iterate.simps)
    next
      fix e assume "(polling d :: 'a exn + bool) = Inl e"
      with Cons Body show ?thesis
        by (simp add: iterate_bad_status_step del: iterate.simps)
    qed
  next
    case (Status c m)
    with Cons show ?thesis by (simp add: iterate_fail_step fetch_def del: iterate.simps)
  next
    case (Broken m)
    with Cons show ?thesis by (simp add: iterate_fail_step fetch_def del: iterate.simps)
  qed
qed

text \<open>While the replies are snapshots that are still in progress, the generator yields them.\<close>

lemma resumed_not_Finished: "g \<noteq> Finished \<Longrightarrow> resumed ds g self h p i \<noteq> Finished"
  by (simp add: resumed_def)

lemma iterate_polling_prefix:
  assumes "\<forall>d \<in> set ds. (polling d :: 'k exn + bool) = Inr True" and "g \<noteq> Finished"
  shows "yielded (iterate (codes :: int \<rightharpoonup> 'k) Host h p i g self (map Body ds @ rest)) =
           map Host ds @ yielded (iterate codes Host h p i (resumed ds g self h p i) self rest)
       \<and> ending (iterate codes Host h p i g self (map Body ds @ rest)) =
           ending (iterate codes Host h p i (resumed ds g self h p i) self rest)
       \<and> session (iterate codes Host h p i g self (map Body ds @ rest)) =
           session (iterate codes Host h p i (resumed ds g self h p i) self rest)"
  using assms
proof (induction ds arbitrary: g)
  case Nil
  then show ?case by (simp add: resumed_def)
next
  case (Cons d ds)
  have "Suspended (later_url g self h p i) \<noteq> Finished" by simp
  with Cons show ?case
    by (simp add: iterate_polling_step Let_def later_url_def resumed_def del: iterate.simps)
qed

lemma iterate_polling_ending:
  assumes "\<forall>d \<in> set ds. (polling d :: 'k exn + bool) = Inr True" and "g \<noteq> Finished"
  shows "ending (iterate (codes :: int \<rightharpoonup> 'k) Host h p i g self (map Body ds @ rest)) =
         ending (iterate codes Host h p i (resumed ds g self h p i) self rest)"
  using iterate_polling_prefix [OF assms] by blast

lemma iterate_polling_yielded:
  assumes "\<forall>d \<in> set ds. (polling d :: 'k exn + bool) = Inr True" and "g \<noteq> Finished"
  shows "yielded (iterate (codes :: int \<rightharpoonup> 'k) Host h p i g self (map Body ds @ rest)) =
         map Host ds @ yielded (iterate codes Host h p i (resumed ds g self h p i) self rest)"
  using iterate_polling_prefix [OF assms] by blast

lemma iterate_polling_session:
  assumes "\<forall>d \<in> set ds. (polling d :: 'k exn + bool) = Inr True" and "g \<noteq> Finished"
  shows "session (iterate (codes :: int \<rightharpoonup> 'k) Host h p i g self (map Body ds @ rest)) =
         session (iterate codes Host h p i (resumed ds g self h p i) self rest)"
  using iterate_polling_prefix [OF assms] by blast

section \<open>The scripted run DNS, IN_PROGRESS, READY\<close>

text \<open>
  Claim C1. When the transport answers the requests of a run with three bodies whose
  \<^verbatim>\<open>status\<close> entries are \<^verbatim>\<open>DNS\<close>, \<^verbatim>\<open>IN_PROGRESS\<close> and \<^verbatim>\<open>READY\<close>, the generator
  yields exactly two snapshots, the \<^verbatim>\<open>Host\<close> of the first body and then the \<^verbatim>\<open>Host\<close> of
  the second one, and then ends; afterwards \<^verbatim>\<open>__host\<close> is the \<^verbatim>\<open>Host\<close> of the third body.
  Whatever the transport would answer after that (\<open>rs\<close>) is never asked for.
\<close>

theorem analyze_dns_in_progress_ready:
  assumes "subscript_status d1 = (Inr (PStr ''DNS'') :: 'k exn + pyval)"
    and "subscript_status d2 = (Inr (PStr ''IN_PROGRESS'') :: 'k exn + pyval)"
    and "subscript_status d3 = (Inr (PStr ''READY'') :: 'k exn + pyval)"
  shows "yielded (analyze (codes :: int \<rightharpoonup> 'k) Host self h p i (Body d1 # Body d2 # Body d3 # rs))
           = [Host d1, Host d2]
       \<and> ending (analyze codes Host self h p i (Body d1 # Body d2 # Body d3 # rs)) = Returned
       \<and> Client_host (session (analyze codes Host self h p i (Body d1 # Body d2 # Body d3 # rs)))
           = Some (Host d3)"
proof -
  have 1: "(polling d1 :: 'k exn + bool) = Inr True"
    and 2: "(polling d2 :: 'k exn + bool) = Inr True"
    and 3: "(polling d3 :: 'k exn + bool) = Inr False"
    using assms by (simp_all add: polling_status_str)
  show ?thesis
    unfolding analyze_def
    by (simp add: iterate_polling_step iterate_terminal_step 1 2 3 Let_def del: iterate.simps)
qed

theorem analyze_dns_in_progress_ready_witness:
  "yielded (analyze (\<lambda>c. if c = 429 then Some ''RateLimitError'' else None) (\<lambda>d. d)
      \<lparr>Client_scheme = ''https'', Client_netloc = ''api.ssllabs.com'', Client_path = ''/api/v2'',
       Client_host = None\<rparr>
      ''example.com'' False False
      [Body (PDict [(''status'', PStr ''DNS'')]),
       Body (PDict [(''status'', PStr ''IN_PROGRESS'')]),
       Body (PDict [(''host'', PStr ''example.com''), (''status'', PStr ''READY'')])])
    = [PDict [(''status'', PStr ''DNS'')], PDict [(''status'', PStr ''IN_PROGRESS'')]]
   \<and> ending (analyze (\<lambda>c. if c = 429 then Some ''RateLimitError'' else None) (\<lambda>d. d)
      \<lparr>Client_scheme = ''https'', Client_netloc = ''api.ssllabs.com'', Client_path = ''/api/v2'',
       Client_host = None\<rparr>
      ''example.com'' False False
      [Body (PDict [(''status'', PStr ''DNS'')]),
       Body (PDict [(''status'', PStr ''IN_PROGRESS'')]),
       Body (PDict [(''host'', PStr ''example.com''), (''status'', PStr ''READY'')])]) = Returned
   \<and> Client_host (session (analyze (\<lambda>c. if c = 429 then Some ''RateLimitError'' else None) (\<lambda>d. d)
      \<lparr>Client_scheme = ''https'', Client_netloc = ''api.ssllabs.com'', Client_path = ''/api/v2'',
       Client_host = None\<rparr>
      ''example.com'' False False
      [Body (PDict [(''status'', PStr ''DNS'')]),
       Body (PDict [(''status'', PStr ''IN_PROGRESS'')]),
       Body (PDict [(''host'', PStr ''example.com''), (''status'', PStr ''READY'')])]))
     = Some (PDict [(''host'', PStr ''example.com''), (''status'', PStr ''READY'')])"
  using analyze_dns_in_progress_ready [where ?'k = string,
      of "PDict [(''status'', PStr ''DNS'')]" "PDict [(''status'', PStr ''IN_PROGRESS'')]"
         "PDict [(''host'', PStr ''example.com''), (''status'', PStr ''READY'')]"
         "\<lambda>c. if c = 429 then Some ''RateLimitError'' else None" "\<lambda>d. d"
         "\<lparr>Client_scheme = ''https'', Client_netloc = ''api.ssllabs.com'', Client_path = ''/api/v2'',
           Client_host = None\<rparr>"
         "''example.com''" False False "[]"]
  by (simp add: subscript_status_def)

section \<open>A first reply that is already terminal\<close>

text \<open>
  Claim C9. When the body of the very first reply has a \<^verbatim>\<open>status\<close> other than
  \<^verbatim>\<open>IN_PROGRESS\<close> and \<^verbatim>\<open>DNS\<close>, the generator yields nothing, ends, and \<^verbatim>\<open>__host\<close>
  is the \<^verbatim>\<open>Host\<close> of that body.
\<close>

theorem analyze_terminal_first:
  assumes "subscript_status d = (Inr (PStr s) :: 'k exn + pyval)"
    and "s \<noteq> ''IN_PROGRESS''" and "s \<noteq> ''DNS''"
  shows "yielded (analyze (codes :: int \<rightharpoonup> 'k) Host self h p i (Body d # rs)) = []
       \<and> ending (analyze codes Host self h p i (Body d # rs)) = Returned
       \<and> Client_host (session (analyze codes Host self h p i (Body d # rs))) = Some (Host d)"
proof -
  have "(polling d :: 'k exn + bool) = Inr False"
    using assms by (simp add: polling_status_str)
  then show ?thesis
    unfolding analyze_def by (simp add: iterate_terminal_step del: iterate.simps)
qed

theorem analyze_terminal_first_witness:
  "yielded (analyze (\<lambda>c. if c = 429 then Some ''RateLimitError'' else None) (\<lambda>d. d)
      \<lparr>Client_scheme = ''https'', Client_netloc = ''api.ssllabs.com'', Client_path = ''/api/v2'',
       Client_host = Some (PDict [(''status'', PStr ''READY'')])\<rparr>
      ''example.com'' True False
      [Body (PDict [(''status'', PStr ''ERROR''), (''statusMessage'', PStr ''Unable to resolve'')])]) = []
   \<and> ending (analyze (\<lambda>c. if c = 429 then Some ''RateLimitError'' else None) (\<lambda>d. d)
      \<lparr>Client_scheme = ''https'', Client_netloc = ''api.ssllabs.com'', Client_path = ''/api/v2'',
       Client_host = Some (PDict [(''status'', PStr ''READY'')])\<rparr>
      ''example.com'' True False
      [Body (PDict [(''status'', PStr ''ERROR''), (''statusMessage'', PStr ''Unable to resolve'')])])
     = Returned
   \<and> Client_host (session (analyze (\<lambda>c. if c = 429 then Some ''RateLimitError'' else None) (\<lambda>d. d)
      \<lparr>Client_scheme = ''https'', Client_netloc = ''api.ssllabs.com'', Client_path = ''/api/v2'',
       Client_host = Some (PDict [(''status'', PStr ''READY'')])\<rparr>
      ''example.com'' True False
      [Body (PDict [(''status'', PStr ''ERROR''), (''statusMessage'', PStr ''Unable to resolve'')])]))
     = Some (PDict [(''status'', PStr ''ERROR''), (''statusMessage'', PStr ''Unable to resolve'')])"
  using analyze_terminal_first [where ?'k = string,
      of "PDict [(''status'', PStr ''ERROR''), (''statusMessage'', PStr ''Unable to resolve'')]"
         "''ERROR''"
         "\<lambda>c. if c = 429 then Some ''RateLimitError'' else None" "\<lambda>d. d"
         "\<lparr>Client_scheme = ''https'', Client_netloc = ''api.ssllabs.com'', Client_path = ''/api/v2'',
           Client_host = Some (PDict [(''status'', PStr ''READY'')])\<rparr>"
         "''example.com''" True False "[]"]
  by (simp add: subscript_status_def)

section \<open>The error mapper\<close>

text \<open>
  Claim C3. When a request of a run fails in \<^verbatim>\<open>raise_for_status\<close> (the first request, or
  a later one after any number of snapshots), the run ends with an exception: the instance
  \<^verbatim>\<open>errors.codes[code](reason)\<close> of the class that \<^verbatim>\<open>errors.codes\<close> has for the status
  code, made from the reason of the response, when the code is a key of \<^verbatim>\<open>errors.codes\<close>;
  and the \<^verbatim>\<open>HTTPError\<close> itself when it is not.
\<close>

theorem analyze_error_mapping:
  assumes "\<forall>d \<in> set ds. (polling d :: 'k exn + bool) = Inr True"
  shows "ending (analyze (codes :: int \<rightharpoonup> 'k) Host self h p i (map Body ds @ Status code reason # rest)) =
           Raised (case codes code of
                     Some cls \<Rightarrow> ResponseError cls reason
                   | None \<Rightarrow> HTTPError code reason)"
proof -
  have "fetch (Status code reason) = (Inl (HTTPError code reason) :: 'k exn + pyval)"
    by (simp add: fetch_def)
  then show ?thesis
    unfolding analyze_def
    by (simp add: iterate_polling_ending [OF assms] iterate_fail_step resumed_not_Finished
          handler_def del: iterate.simps)
qed

theorem analyze_error_mapping_witness:
  "ending (analyze (\<lambda>c. if c = 429 then Some ''RateLimitError'' else None) (\<lambda>d. d)
      \<lparr>Client_scheme = ''https'', Client_netloc = ''api.ssllabs.com'', Client_path = ''/api/v2'',
       Client_host = None\<rparr>
      ''example.com'' False False
      (map Body [PDict [(''status'', PStr ''DNS'')]] @ [Status 429 ''Too Many Requests'']))
     = Raised (ResponseError ''RateLimitError'' ''Too Many Requests'')
   \<and> ending (analyze (\<lambda>c. if c = 429 then Some ''RateLimitError'' else None) (\<lambda>d. d)
      \<lparr>Client_scheme = ''https'', Client_netloc = ''api.ssllabs.com'', Client_path = ''/api/v2'',
       Client_host = None\<rparr>
      ''example.com'' False False
      (map Body [] @ [Status 418 ''I'm a teapot'']))
     = Raised (HTTPError 418 ''I'm a teapot'')"
  using analyze_error_mapping [where ?'k = string,
      of "[PDict [(''status'', PStr ''DNS'')]]"
         "\<lambda>c. if c = 429 then Some ''RateLimitError'' else None" "\<lambda>d. d"
         "\<lparr>Client_scheme = ''https'', Client_netloc = ''api.ssllabs.com'', Client_path = ''/api/v2'',
           Client_host = None\<rparr>"
         "''example.com''" False False 429 "''Too Many Requests''" "[]"]
    analyze_error_mapping [where ?'k = string,
      of "[]"
         "\<lambda>c. if c = 429 then Some ''RateLimitError'' else None" "\<lambda>d. d"
         "\<lparr>Client_scheme = ''https'', Client_netloc = ''api.ssllabs.com'', Client_path = ''/api/v2'',
           Client_host = None\<rparr>"
         "''example.com''" False False 418 "''I'm a teapot''" "[]"]
  by (simp add: polling_def subscript_status_def)

section \<open>No partial commit\<close>

text \<open>
  Claim C4. When a request of a run fails (\<^verbatim>\<open>raise_for_status\<close> raises, or the transport
  or the JSON decoder does), be it the first request or one made after the snapshots \<open>ds\<close>
  have been yielded, the run ends with the exception that the \<^verbatim>\<open>except\<close> clause lets out,
  and the session is the one the run started with: \<^verbatim>\<open>__host\<close> is still unset if it was
  unset, and still the result of the earlier run otherwise.
\<close>

theorem analyze_failure_no_commit:
  assumes "\<forall>d \<in> set ds. (polling d :: 'k exn + bool) = Inr True"
    and "fetch r = (Inl e :: 'k exn + pyval)"
  shows "ending (analyze (codes :: int \<rightharpoonup> 'k) Host self h p i (map Body ds @ r # rest))
           = Raised (handler codes e)
       \<and> yielded (analyze codes Host self h p i (map Body ds @ r # rest)) = map Host ds
       \<and> session (analyze codes Host self h p i (map Body ds @ r # rest)) = self"
  unfolding analyze_def
  by (simp add: iterate_polling_ending [OF assms(1)] iterate_polling_yielded [OF assms(1)]
        iterate_polling_session [OF assms(1)] iterate_fail_step [OF _ assms(2)]
        resumed_not_Finished del: iterate.simps)

theorem analyze_failure_no_commit_witness:
  "ending (analyze (\<lambda>c. if c = 429 then Some ''RateLimitError'' else None) (\<lambda>d. d)
      \<lparr>Client_scheme = ''https'', Client_netloc = ''api.ssllabs.com'', Client_path = ''/api/v2'',
       Client_host = Some (PDict [(''status'', PStr ''READY'')])\<rparr>
      ''example.com'' False False
      (map Body [PDict [(''status'', PStr ''DNS'')], PDict [(''status'', PStr ''IN_PROGRESS'')]]
         @ [Status 500 ''Internal Server Error'']))
     = Raised (HTTPError 500 ''Internal Server Error'')
   \<and> session (analyze (\<lambda>c. if c = 429 then Some ''RateLimitError'' else None) (\<lambda>d. d)
      \<lparr>Client_scheme = ''https'', Client_netloc = ''api.ssllabs.com'', Client_path = ''/api/v2'',
       Client_host = Some (PDict [(''status'', PStr ''READY'')])\<rparr>
      ''example.com'' False False
      (map Body [PDict [(''status'', PStr ''DNS'')], PDict [(''status'', PStr ''IN_PROGRESS'')]]
         @ [Status 500 ''Internal Server Error'']))
     = \<lparr>Client_scheme = ''https'', Client_netloc = ''api.ssllabs.com'', Client_path = ''/api/v2'',
        Client_host = Some (PDict [(''status'', PStr ''READY'')])\<rparr>"
  using analyze_failure_no_commit [where ?'k = string,
      of "[PDict [(''status'', PStr ''DNS'')], PDict [(''status'', PStr ''IN_PROGRESS'')]]"
         "Status 500 ''Internal Server Error''" "HTTPError 500 ''Internal Server Error''"
         "\<lambda>c. if c = 429 then Some ''RateLimitError'' else None" "\<lambda>d. d"
         "\<lparr>Client_scheme = ''https'', Client_netloc = ''api.ssllabs.com'', Client_path = ''/api/v2'',
           Client_host = Some (PDict [(''status'', PStr ''READY'')])\<rparr>"
         "''example.com''" False False "[]"]
  by (simp add: polling_def subscript_status_def fetch_def handler_def)

section \<open>The host property\<close>

lemma Client_init_host:
  "Client_init lib u = (Inr c :: 'k exn + 'h Client) \<Longrightarrow> Client_host c = None"
  by (auto simp: Client_init_def split: sum.splits)

lemma entrypoint_set_host:
  "entrypoint_set lib self v = (Inr self' :: 'k exn + 'h Client) \<Longrightarrow> Client_host self' = Client_host self"
  by (auto simp: entrypoint_set_def split: sum.splits)

text \<open>
  Claim C5. Reading \<^verbatim>\<open>host\<close> raises \<^verbatim>\<open>NoHostError\<close>, and returns no value, on a session
  that \<^verbatim>\<open>Client(...)\<close> has just made, and on a session whose \<^verbatim>\<open>__host\<close> was unset
  before a run that did not reach its end (it raised, or the caller stopped iterating).
  After a run that has reached a body whose status is terminal, reading \<^verbatim>\<open>host\<close> returns
  the \<^verbatim>\<open>Host\<close> of that body.
\<close>

theorem host_property:
  "(Client_init lib u = (Inr c :: 'k exn + 'h Client) \<longrightarrow>
      fst (host c) =
        (Inl (NoHostError ''analyze must be run to completion before the host property may be accessed'')
           :: 'k exn + 'h))
 \<and> (Client_host self = None \<and> ending (analyze (codes :: int \<rightharpoonup> 'k) Host self h p i rs) \<noteq> Returned \<longrightarrow>
      fst (host (session (analyze codes Host self h p i rs))) =
        (Inl (NoHostError ''analyze must be run to completion before the host property may be accessed'')
           :: 'k exn + 'h))
 \<and> ((\<forall>x \<in> set ds. (polling x :: 'k exn + bool) = Inr True) \<and> (polling d :: 'k exn + bool) = Inr False \<longrightarrow>
      fst (host (session (analyze codes Host self h p i (map Body ds @ Body d # rest)))) =
        (Inr (Host d) :: 'k exn + 'h))"
proof (intro conjI impI)
  assume "Client_init lib u = (Inr c :: 'k exn + 'h Client)"
  then show "fst (host c) =
      (Inl (NoHostError ''analyze must be run to completion before the host property may be accessed'')
         :: 'k exn + 'h)"
    by (simp add: host_def Client_init_host)
next
  assume a: "Client_host self = None \<and> ending (analyze codes Host self h p i rs) \<noteq> Returned"
  then have "session (analyze codes Host self h p i rs) = self"
    unfolding analyze_def by (simp add: iterate_session)
  with a show "fst (host (session (analyze codes Host self h p i rs))) =
      (Inl (NoHostError ''analyze must be run to completion before the host property may be accessed'')
         :: 'k exn + 'h)"
    by (simp add: host_def)
next
  assume a: "(\<forall>x \<in> set ds. (polling x :: 'k exn + bool) = Inr True) \<and> (polling d :: 'k exn + bool) = Inr False"
  then have "session (analyze codes Host self h p i (map Body ds @ Body d # rest)) =
      self\<lparr>Client_host := Some (Host d)\<rparr>"
    unfolding analyze_def
    by (simp add: iterate_polling_session iterate_terminal_step resumed_not_Finished
          del: iterate.simps)
  then show "fst (host (session (analyze codes Host self h p i (map Body ds @ Body d # rest)))) =
      (Inr (Host d) :: 'k exn + 'h)"
    by (simp add: host_def)
qed

theorem host_property_witness:
  "fst (host \<lparr>Client_scheme = ''https'', Client_netloc = ''api.ssllabs.com'',
              Client_path = ''/api/v2'', Client_host = None :: pyval option\<rparr>) =
     (Inl (NoHostError ''analyze must be run to completion before the host property may be accessed'')
        :: string exn + pyval)
 \<and> fst (host (session (analyze (\<lambda>c. if c = 429 then Some ''RateLimitError'' else None) (\<lambda>d. d)
       \<lparr>Client_scheme = ''https'', Client_netloc = ''api.ssllabs.com'', Client_path = ''/api/v2'',
        Client_host = None\<rparr>
       ''example.com'' False False [Body (PDict [(''status'', PStr ''DNS'')])]))) =
     (Inl (NoHostError ''analyze must be run to completion before the host property may be accessed'')
        :: string exn + pyval)
 \<and> fst (host (session (analyze (\<lambda>c. if c = 429 then Some ''RateLimitError'' else None) (\<lambda>d. d)
       \<lparr>Client_scheme = ''https'', Client_netloc = ''api.ssllabs.com'', Client_path = ''/api/v2'',
        Client_host = None\<rparr>
       ''example.com'' False False
       (map Body [PDict [(''status'', PStr ''DNS'')]] @ Body (PDict [(''status'', PStr ''READY'')]) # [])))) =
     (Inr (PDict [(''status'', PStr ''READY'')]) :: string exn + pyval)"
proof -
  have made: "Client_init \<lparr>check_bracketed_netloc = (\<lambda>_. None), checknetloc = (\<lambda>_. None)\<rparr>
        ''https://api.ssllabs.com/api/v2/'' =
      (Inr \<lparr>Client_scheme = ''https'', Client_netloc = ''api.ssllabs.com'', Client_path = ''/api/v2'',
            Client_host = None\<rparr> :: string exn + pyval Client)"
    by code_simp
  have pending: "ending (analyze (\<lambda>c. if c = 429 then Some ''RateLimitError'' else None) (\<lambda>d. d)
       \<lparr>Client_scheme = ''https'', Client_netloc = ''api.ssllabs.com'', Client_path = ''/api/v2'',
        Client_host = None\<rparr>
       ''example.com'' False False [Body (PDict [(''status'', PStr ''DNS'')])]) \<noteq> Returned"
    by (simp add: analyze_def analyze_next_def analyze_loop_def fetch_def polling_def
          subscript_status_def Let_def)
  have statuses: "(\<forall>x \<in> set [PDict [(''status'', PStr ''DNS'')]]. (polling x :: string exn + bool) = Inr True)
      \<and> (polling (PDict [(''status'', PStr ''READY'')]) :: string exn + bool) = Inr False"
    by (simp add: polling_def subscript_status_def)
  show ?thesis
    using made pending statuses
      host_property [where ?'k = string,
        of "\<lparr>check_bracketed_netloc = (\<lambda>_. None), checknetloc = (\<lambda>_. None)\<rparr>"
           "''https://api.ssllabs.com/api/v2/''"
           "\<lparr>Client_scheme = ''https'', Client_netloc = ''api.ssllabs.com'', Client_path = ''/api/v2'',
             Client_host = None\<rparr>"
           "\<lparr>Client_scheme = ''https'', Client_netloc = ''api.ssllabs.com'', Client_path = ''/api/v2'',
             Client_host = None\<rparr>"
           "\<lambda>c. if c = 429 then Some ''RateLimitError'' else None" "\<lambda>d. d"
           "''example.com''" False False "[Body (PDict [(''status'', PStr ''DNS'')])]"
           "[PDict [(''status'', PStr ''DNS'')]]" "PDict [(''status'', PStr ''READY'')]" "[]"]
    by simp
qed

section \<open>Frame conditions\<close>

text \<open>
  Claim C10. Setting \<^verbatim>\<open>entrypoint\<close> leaves \<^verbatim>\<open>__host\<close> as it is, and reading \<^verbatim>\<open>host\<close>
  leaves the whole session as it is, the three URL attributes and \<^verbatim>\<open>__host\<close>, whether it
  returns the snapshot or raises.
\<close>

theorem entrypoint_set_host_frame:
  "(entrypoint_set lib self v = (Inr self' :: 'k exn + 'h Client) \<longrightarrow> Client_host self' = Client_host self)
 \<and> snd (host self :: ('k exn + 'h) \<times> 'h Client) = self"
  by (auto simp: entrypoint_set_host host_def split: option.splits)

theorem entrypoint_set_host_frame_witness:
  "Client_host \<lparr>Client_scheme = ''http'', Client_netloc = ''localhost:8080'', Client_path = ''/api'',
                Client_host = Some (PDict [(''status'', PStr ''READY'')])\<rparr>
     = Client_host \<lparr>Client_scheme = ''https'', Client_netloc = ''api.ssllabs.com'',
                     Client_path = ''/api/v2'', Client_host = Some (PDict [(''status'', PStr ''READY'')])\<rparr>
 \<and> snd (host \<lparr>Client_scheme = ''https'', Client_netloc = ''api.ssllabs.com'',
               Client_path = ''/api/v2'', Client_host = Some (PDict [(''status'', PStr ''READY'')])\<rparr>
          :: (string exn + pyval) \<times> pyval Client)
     = \<lparr>Client_scheme = ''https'', Client_netloc = ''api.ssllabs.com'',
        Client_path = ''/api/v2'', Client_host = Some (PDict [(''status'', PStr ''READY'')])\<rparr>"
proof -
  have "entrypoint_set \<lparr>check_bracketed_netloc = (\<lambda>_. None), checknetloc = (\<lambda>_. None)\<rparr>
          \<lparr>Client_scheme = ''https'', Client_netloc = ''api.ssllabs.com'',
           Client_path = ''/api/v2'', Client_host = Some (PDict [(''status'', PStr ''READY'')])\<rparr>
          ''http://localhost:8080/api/'' =
        (Inr \<lparr>Client_scheme = ''http'', Client_netloc = ''localhost:8080'', Client_path = ''/api'',
              Client_host = Some (PDict [(''status'', PStr ''READY'')])\<rparr> :: string exn + pyval Client)"
    by code_simp
  then show ?thesis
    using entrypoint_set_host_frame [where ?'k = string,
        of "\<lparr>check_bracketed_netloc = (\<lambda>_. None), checknetloc = (\<lambda>_. None)\<rparr>"
           "\<lparr>Client_scheme = ''https'', Client_netloc = ''api.ssllabs.com'',
             Client_path = ''/api/v2'', Client_host = Some (PDict [(''status'', PStr ''READY'')])\<rparr>"
           "''http://localhost:8080/api/''"
           "\<lparr>Client_scheme = ''http'', Client_netloc = ''localhost:8080'', Client_path = ''/api'',
             Client_host = Some (PDict [(''status'', PStr ''READY'')])\<rparr>"]
    by simp
qed

section \<open>Malformed URLs\<close>

lemma urlsplit_raises_ValueError:
  "urlsplit lib v = (Inl e :: 'k exn + SplitResult) \<Longrightarrow> \<exists>msg. e = ValueError msg"
  unfolding urlsplit_def Let_def
  by (simp split: prod.splits if_splits option.splits; blast)

text \<open>
  Claim C7, for the URLs that the URL-parsing primitive rejects. Such a URL is rejected when
  the session is configured: \<^verbatim>\<open>urlsplit\<close> raises a \<^verbatim>\<open>ValueError\<close>, and both the
  \<^verbatim>\<open>entrypoint\<close> setter and \<^verbatim>\<open>Client(...)\<close> raise that same exception, before any
  attribute is assigned. Neither of the two takes a reply of the transport: no request is
  involved. The setter makes no check of its own (its docstring says that an invalid URL will
  raise whatever exceptions it would when fed directly into \<^verbatim>\<open>urlsplit\<close>), so that this
  is all that holds of malformed URLs: the ones that \<^verbatim>\<open>urlsplit\<close> accepts are stored as
  they are.
\<close>

theorem malformed_url_fails_at_configuration:
  assumes "urlsplit lib v = (Inl e :: 'k exn + SplitResult)"
  shows "entrypoint_set lib self v = (Inl e :: 'k exn + 'h Client)
       \<and> Client_init lib v = (Inl e :: 'k exn + 'h Client)
       \<and> (\<exists>msg. e = ValueError msg)"
  using assms urlsplit_raises_ValueError [OF assms]
  by (auto simp: entrypoint_set_def Client_init_def)

theorem malformed_url_fails_at_configuration_witness:
  "entrypoint_set \<lparr>check_bracketed_netloc = (\<lambda>_. None), checknetloc = (\<lambda>_. None)\<rparr>
       \<lparr>Client_scheme = ''https'', Client_netloc = ''api.ssllabs.com'',
        Client_path = ''/api/v2'', Client_host = None\<rparr> ''http://[::1/api'' =
     (Inl (ValueError ''Invalid IPv6 URL'') :: string exn + pyval Client)
 \<and> Client_init \<lparr>check_bracketed_netloc = (\<lambda>_. None), checknetloc = (\<lambda>_. None)\<rparr> ''http://[::1/api'' =
     (Inl (ValueError ''Invalid IPv6 URL'') :: string exn + pyval Client)"
proof -
  have "urlsplit \<lparr>check_bracketed_netloc = (\<lambda>_. None), checknetloc = (\<lambda>_. None)\<rparr> ''http://[::1/api'' =
      (Inl (ValueError ''Invalid IPv6 URL'') :: string exn + SplitResult)"
    by code_simp
  from malformed_url_fails_at_configuration [OF this] show ?thesis
    by blast
qed

text \<open>
  Claim C7, for the malformed URLs that \<^verbatim>\<open>urlsplit\<close> accepts. The string
  \<^verbatim>\<open>not a url\<close> has no scheme and no network location, and \<^verbatim>\<open>http://\<close> has an
  empty network location; \<^verbatim>\<open>Client(...)\<close> and the setter accept both and raise nothing.
  The first request of a run on the first of these sessions is then made with the URL
  \<^verbatim>\<open>not a url/analyze?startNew=on&host=example.com&all=done\<close>: whatever is wrong with the
  entrypoint is left to \<^verbatim>\<open>requests.get\<close>.
\<close>

theorem malformed_url_accepted_at_configuration:
  "Client_init \<lparr>check_bracketed_netloc = (\<lambda>_. None), checknetloc = (\<lambda>_. None)\<rparr> ''not a url'' =
     (Inr \<lparr>Client_scheme = '''', Client_netloc = '''', Client_path = ''not a url'',
           Client_host = None\<rparr> :: string exn + pyval Client)
 \<and> entrypoint_set \<lparr>check_bracketed_netloc = (\<lambda>_. None), checknetloc = (\<lambda>_. None)\<rparr>
       \<lparr>Client_scheme = ''https'', Client_netloc = ''api.ssllabs.com'',
        Client_path = ''/api/v2'', Client_host = None\<rparr> ''http://'' =
     (Inr \<lparr>Client_scheme = ''http'', Client_netloc = '''', Client_path = '''',
           Client_host = None\<rparr> :: string exn + pyval Client)
 \<and> requested (analyze (\<lambda>c. if c = 429 then Some ''RateLimitError'' else None) (\<lambda>d. d)
       \<lparr>Client_scheme = '''', Client_netloc = '''', Client_path = ''not a url'', Client_host = None\<rparr>
       ''example.com'' False False [Broken ''MissingSchema'']) =
     [''not a url/analyze?startNew=on&host=example.com&all=done'']"
  by code_simp

section \<open>Percent-encoding and the parameters of a request\<close>

lemma of_char_less_256: "(of_char c :: nat) < 256"
proof -
  have "of_char c mod (256 :: nat) < 256" by simp
  then show ?thesis by simp
qed

lemma hexdigit_safe: "n < 16 \<Longrightarrow> always_safe (hexdigit n)"
proof -
  have "\<forall>n \<in> set [0..<16]. always_safe (hexdigit n)" by code_simp
  then show "n < 16 \<Longrightarrow> always_safe (hexdigit n)" by simp
qed

lemma unhex_hexdigit: "n < 16 \<Longrightarrow> unhex (hexdigit n) = Some n"
proof -
  have "\<forall>n \<in> set [0..<16]. unhex (hexdigit n) = Some n" by code_simp
  then show "n < 16 \<Longrightarrow> unhex (hexdigit n) = Some n" by simp
qed

lemma always_safe_not_delim:
  "always_safe c \<Longrightarrow> c \<noteq> CHR ''%'' \<and> c \<noteq> CHR ''+'' \<and> c \<noteq> CHR '' '' \<and> c \<noteq> CHR ''&''
     \<and> c \<noteq> CHR ''='' \<and> c \<noteq> CHR ''#'' \<and> c \<noteq> CHR ''?''"
  by (auto simp: always_safe_def)

lemma unquote_plus_plain:
  "c \<noteq> CHR ''%'' \<Longrightarrow> unquote_plus (c # cs) = (if c = CHR ''+'' then CHR '' '' else c) # unquote_plus cs"
  by (cases cs rule: unquote_plus.cases) simp_all

lemma unquote_plus_escape:
  "unhex x = Some a \<Longrightarrow> unhex y = Some b \<Longrightarrow>
     unquote_plus (CHR ''%'' # x # y # cs) = char_of (16 * a + b) # unquote_plus cs"
  by simp

lemma unquote_quoter:
  "unquote_plus (quoter [] c @ cs) = c # unquote_plus cs"
proof (cases "always_safe c")
  case True
  then show ?thesis
    using always_safe_not_delim [of c] by (simp add: quoter_def unquote_plus_plain)
next
  case False
  have "(of_char c :: nat) div 16 < 16" using of_char_less_256 [of c] by presburger
  moreover have "(of_char c :: nat) mod 16 < 16" by simp
  ultimately show ?thesis
    using False
    by (simp add: quoter_def unquote_plus_escape [OF unhex_hexdigit unhex_hexdigit] del: unquote_plus.simps)
qed

lemma unquote_quote: "unquote_plus (quote [] s) = s"
proof (induction s)
  case Nil
  show ?case by (simp add: quote_def)
next
  case (Cons c s)
  then show ?case by (simp add: quote_def unquote_quoter del: unquote_plus.simps)
qed

lemma replace_char_Nil: "replace_char a b [] = []"
  by (simp add: replace_char_def)

lemma replace_char_Cons: "replace_char a b (c # cs) = (if c = a then b else c) # replace_char a b cs"
  by (simp add: replace_char_def)

lemma replace_char_append: "replace_char a b (xs @ ys) = replace_char a b xs @ replace_char a b ys"
  by (simp add: replace_char_def)

lemma unquote_quoter_space:
  "unquote_plus (replace_char CHR '' '' CHR ''+'' (quoter '' '' c) @ cs) = c # unquote_plus cs"
proof (cases "always_safe c \<or> c = CHR '' ''")
  case True
  then show ?thesis
    using always_safe_not_delim [of c]
    by (auto simp: quoter_def unquote_plus_plain replace_char_Cons replace_char_Nil)
next
  case False
  have d: "(of_char c :: nat) div 16 < 16" using of_char_less_256 [of c] by presburger
  have m: "(of_char c :: nat) mod 16 < 16" by simp
  have "hexdigit (of_char c div 16) \<noteq> CHR '' ''"
    using hexdigit_safe [OF d] always_safe_not_delim by blast
  moreover have "hexdigit (of_char c mod 16) \<noteq> CHR '' ''"
    using hexdigit_safe [OF m] always_safe_not_delim by blast
  ultimately show ?thesis
    using False
    by (simp add: quoter_def replace_char_Cons replace_char_Nil
          unquote_plus_escape [OF unhex_hexdigit [OF d] unhex_hexdigit [OF m]]
          del: unquote_plus.simps)
qed

lemma unquote_quote_space: "unquote_plus (replace_char CHR '' '' CHR ''+'' (quote '' '' s)) = s"
proof (induction s)
  case Nil
  show ?case by (simp add: quote_def replace_char_Nil)
next
  case (Cons c s)
  then show ?case
    by (simp add: quote_def replace_char_append unquote_quoter_space del: unquote_plus.simps)
qed

lemma unquote_plus_quote_plus: "unquote_plus (quote_plus s) = s"
  by (simp add: quote_plus_def unquote_quote unquote_quote_space del: unquote_plus.simps)

lemma quoter_chars:
  "x \<in> set (quoter safe c) \<Longrightarrow> always_safe x \<or> x = CHR ''%'' \<or> x \<in> set safe"
proof -
  have d: "(of_char c :: nat) div 16 < 16" using of_char_less_256 [of c] by presburger
  have m: "(of_char c :: nat) mod 16 < 16" by simp
  show "x \<in> set (quoter safe c) \<Longrightarrow> always_safe x \<or> x = CHR ''%'' \<or> x \<in> set safe"
    using hexdigit_safe [OF d] hexdigit_safe [OF m]
    by (auto simp: quoter_def split: if_splits)
qed

lemma quote_chars:
  "x \<in> set (quote safe s) \<Longrightarrow> always_safe x \<or> x = CHR ''%'' \<or> x \<in> set safe"
  by (auto simp: quote_def dest: quoter_chars)

lemma quote_plus_chars:
  "x \<in> set (quote_plus s) \<Longrightarrow> always_safe x \<or> x = CHR ''%'' \<or> x = CHR ''+''"
  by (auto simp: quote_plus_def replace_char_def dest: quote_chars split: if_splits)

lemma quote_plus_no_delim:
  "CHR ''&'' \<notin> set (quote_plus s)" "CHR ''='' \<notin> set (quote_plus s)"
  "CHR ''#'' \<notin> set (quote_plus s)" "CHR ''?'' \<notin> set (quote_plus s)"
  using quote_plus_chars [of _ s] always_safe_not_delim by fastforce+

text \<open>The fields of an encoded query.\<close>

lemma split_on_none: "sep \<notin> set x \<Longrightarrow> split_on sep x = [x]"
  by (induction x) auto

lemma split_on_append: "sep \<notin> set x \<Longrightarrow> split_on sep (x @ sep # rest) = x # split_on sep rest"
  by (induction x) auto

lemma str_join_Cons: "xs \<noteq> [] \<Longrightarrow> str_join sep (x # xs) = x @ sep @ str_join sep xs"
  by (cases xs) simp_all

lemma split_on_join:
  "xs \<noteq> [] \<Longrightarrow> \<forall>x \<in> set xs. sep \<notin> set x \<Longrightarrow> split_on sep (str_join [sep] xs) = xs"
proof (induction xs rule: list_nonempty_induct)
  case (single x)
  then show ?case by (simp add: split_on_none)
next
  case (cons x xs)
  then show ?case by (simp add: str_join_Cons split_on_append del: split_on.simps)
qed

lemma urlencode_fields:
  "kvs \<noteq> [] \<Longrightarrow>
   filter (\<lambda>field. field \<noteq> []) (split_on CHR ''&'' (urlencode kvs)) =
     map (\<lambda>(k, v). quote_plus k @ ''='' @ quote_plus v) kvs"
proof -
  assume ne: "kvs \<noteq> []"
  let ?fs = "map (\<lambda>(k, v). quote_plus k @ ''='' @ quote_plus v) kvs"
  have "\<forall>x \<in> set ?fs. CHR ''&'' \<notin> set x" by (auto simp: quote_plus_no_delim)
  moreover have "?fs \<noteq> []" using ne by simp
  ultimately have "split_on CHR ''&'' (urlencode kvs) = ?fs"
    unfolding urlencode_def by (rule split_on_join [rotated])
  moreover have "filter (\<lambda>field. field \<noteq> []) ?fs = ?fs"
    by (rule filter_True) auto
  ultimately show ?thesis by simp
qed

lemma field_name:
  "unquote_plus (takeWhile (\<lambda>c. c \<noteq> CHR ''='') (quote_plus k @ CHR ''='' # quote_plus v)) = k"
proof -
  have "\<forall>c \<in> set (quote_plus k). c \<noteq> CHR ''=''" using quote_plus_no_delim(2) [of k] by blast
  then have "takeWhile (\<lambda>c. c \<noteq> CHR ''='') (quote_plus k @ CHR ''='' # quote_plus v) = quote_plus k"
    by (simp add: takeWhile_append2)
  then show ?thesis by (simp add: unquote_plus_quote_plus del: unquote_plus.simps)
qed

lemma field_value:
  "unquote_plus (drop (Suc 0) (dropWhile (\<lambda>c. c \<noteq> CHR ''='') (quote_plus k @ CHR ''='' # quote_plus v))) = v"
proof -
  have "\<forall>c \<in> set (quote_plus k). c \<noteq> CHR ''=''" using quote_plus_no_delim(2) [of k] by blast
  then have "dropWhile (\<lambda>c. c \<noteq> CHR ''='') (quote_plus k @ CHR ''='' # quote_plus v) = CHR ''='' # quote_plus v"
    by (simp add: dropWhile_append2)
  then show ?thesis by (simp add: unquote_plus_quote_plus del: unquote_plus.simps)
qed

text \<open>The query of a URL built by \<^const>\<open>urlunsplit\<close>.\<close>

lemma urlunsplit_query:
  "urlunsplit (s, n, p, q, '''') = urlunsplit (s, n, p, '''', '''') @ (if q \<noteq> [] then ''?'' @ q else [])"
  by (simp add: urlunsplit_def Let_def)

lemma urlunsplit_chars:
  "c \<in> set (urlunsplit (s, n, p, '''', '''')) \<Longrightarrow> c \<in> set (s @ n @ p) \<or> c = CHR ''/'' \<or> c = CHR '':''"
  by (auto simp: urlunsplit_def Let_def split: if_splits)

lemma url_query_built:
  assumes "\<forall>c \<in> set (s @ n @ p). c \<noteq> CHR ''?'' \<and> c \<noteq> CHR ''#''" and "CHR ''#'' \<notin> set q"
  shows "url_query (urlunsplit (s, n, p, q, '''')) = q"
proof -
  define pre where "pre = urlunsplit (s, n, p, '''', '''')"
  have pre: "\<forall>c \<in> set pre. c \<noteq> CHR ''?'' \<and> c \<noteq> CHR ''#''"
    unfolding pre_def using assms(1) urlunsplit_chars [of _ s n p] by fastforce
  show ?thesis
  proof (cases "q = []")
    case True
    have a: "takeWhile (\<lambda>c. c \<noteq> CHR ''#'') pre = pre"
      using pre by (simp add: takeWhile_eq_all_conv)
    have b: "dropWhile (\<lambda>c. c \<noteq> CHR ''?'') pre = []"
      using pre by (simp add: dropWhile_eq_Nil_conv)
    have c: "urlunsplit (s, n, p, q, '''') = pre"
      using True by (simp add: pre_def)
    show ?thesis
      unfolding url_query_def c a b using True by simp
  next
    case False
    have a: "takeWhile (\<lambda>c. c \<noteq> CHR ''#'') (pre @ CHR ''?'' # q) = pre @ CHR ''?'' # q"
      using pre assms(2) by (auto simp: takeWhile_eq_all_conv)
    have b: "dropWhile (\<lambda>c. c \<noteq> CHR ''?'') (pre @ CHR ''?'' # q) = CHR ''?'' # q"
      using pre by (simp add: dropWhile_append2)
    have c: "urlunsplit (s, n, p, q, '''') = pre @ CHR ''?'' # q"
      using False unfolding pre_def by (simp add: urlunsplit_def Let_def)
    show ?thesis
      unfolding url_query_def c a b by simp
  qed
qed

lemma urlencode_no_hash: "CHR ''#'' \<notin> set (urlencode kvs)"
proof (induction kvs rule: induct_list012)
  case 1
  show ?case by (simp add: urlencode_def)
next
  case (2 x)
  show ?case by (cases x) (simp add: urlencode_def quote_plus_no_delim)
next
  case (3 x y zs)
  then show ?case by (cases x) (simp add: urlencode_def quote_plus_no_delim)
qed

lemma request_params_built:
  assumes "\<forall>c \<in> set (s @ n @ p). c \<noteq> CHR ''?'' \<and> c \<noteq> CHR ''#''" and "kvs \<noteq> []"
  shows "request_params (urlunsplit (s, n, p, urlencode kvs, '''')) = kvs"
proof -
  have "url_query (urlunsplit (s, n, p, urlencode kvs, '''')) = urlencode kvs"
    using assms(1) urlencode_no_hash by (rule url_query_built)
  then have "request_params (urlunsplit (s, n, p, urlencode kvs, '''')) =
      map (\<lambda>field. (unquote_plus (takeWhile (\<lambda>c. c \<noteq> CHR ''='') field),
                   unquote_plus (drop 1 (dropWhile (\<lambda>c. c \<noteq> CHR ''='') field))))
          (map (\<lambda>(k, v). quote_plus k @ ''='' @ quote_plus v) kvs)"
    by (simp only: request_params_def urlencode_fields [OF assms(2)])
  also have "\<dots> = map (\<lambda>kv. kv) kvs"
    unfolding map_map by (rule map_cong) (auto simp: field_name field_value simp del: unquote_plus.simps)
  finally show ?thesis by simp
qed

lemma analyze_query_eq:
  "analyze_query h p i =
     [(''host'', h), (''all'', ''done'')] @ (if p then [(''publish'', ''on'')] else [])
       @ (if i then [(''ignoreMismatch'', ''on'')] else [])"
  by (simp add: analyze_query_def Let_def)

lemma analyze_startnewquery_eq:
  "analyze_startnewquery (analyze_query h p i) = (''startNew'', ''on'') # analyze_query h p i"
  by (cases p; cases i) (simp_all add: analyze_startnewquery_def analyze_query_def Let_def)

lemma analyze_query_not_Nil: "analyze_query h p i \<noteq> []"
  by (simp add: analyze_query_eq)

lemma configured_analyze_path:
  "configured self \<Longrightarrow>
     \<forall>c \<in> set (Client_scheme self @ Client_netloc self @ (Client_path self @ ''/'' @ ''analyze'')).
        c \<noteq> CHR ''?'' \<and> c \<noteq> CHR ''#''"
  by (auto simp: configured_def)

lemma request_params_start_url:
  "configured self \<Longrightarrow> request_params (start_url self h p i) = (''startNew'', ''on'') # analyze_query h p i"
  unfolding start_url_def
  by (simp only: request_params_built [OF configured_analyze_path] analyze_startnewquery_eq list.simps not_False_eq_True)

lemma request_params_poll_url:
  "configured self \<Longrightarrow> request_params (poll_url self h p i) = analyze_query h p i"
  unfolding poll_url_def
  by (simp only: request_params_built [OF configured_analyze_path analyze_query_not_Nil])

section \<open>The requests of a run\<close>

lemma requested_shape:
  "g \<noteq> Finished \<Longrightarrow> rs \<noteq> [] \<Longrightarrow>
     \<exists>n. requested (iterate codes Host h p i g self rs) =
           next_url g self h p i # replicate n (later_url g self h p i)"
proof (induction rs arbitrary: g)
  case Nil
  then show ?case by simp
next
  case (Cons r rs)
  show ?case
  proof (cases r)
    case (Body d)
    from polling_cases [of d, where ?'k = 'a] show ?thesis
    proof (elim disjE exE)
      assume pol: "(polling d :: 'a exn + bool) = Inr True"
      show ?thesis
      proof (cases "rs = []")
        case True
        with Cons.prems Body pol
        have "requested (iterate codes Host h p i g self (r # rs)) =
            next_url g self h p i # replicate 0 (later_url g self h p i)"
          by (simp add: iterate_polling_step Let_def del: iterate.simps(2))
        then show ?thesis by blast
      next
        case False
        have "Suspended (later_url g self h p i) \<noteq> Finished" by simp
        from Cons.IH [OF this False] obtain n where
          "requested (iterate codes Host h p i (Suspended (later_url g self h p i)) self rs) =
             later_url g self h p i # replicate n (later_url g self h p i)"
          by (auto simp: next_url_def later_url_def)
        then have "requested (iterate codes Host h p i g self (r # rs)) =
            next_url g self h p i # replicate (Suc n) (later_url g self h p i)"
          using Cons.prems Body pol
          by (simp add: iterate_polling_step Let_def del: iterate.simps)
        then show ?thesis by blast
      qed
    next
      assume "(polling d :: 'a exn + bool) = Inr False"
      with Cons.prems Body have "requested (iterate codes Host h p i g self (r # rs)) =
          next_url g self h p i # replicate 0 (later_url g self h p i)"
        by (simp add: iterate_terminal_step del: iterate.simps)
      then show ?thesis by blast
    next
      fix e assume "(polling d :: 'a exn + bool) = Inl e"
      with Cons.prems Body have "requested (iterate codes Host h p i g self (r # rs)) =
          next_url g self h p i # replicate 0 (later_url g self h p i)"
        by (simp add: iterate_bad_status_step del: iterate.simps)
      then show ?thesis by blast
    qed
  next
    case (Status c m)
    with Cons.prems have "requested (iterate codes Host h p i g self (r # rs)) =
        next_url g self h p i # replicate 0 (later_url g self h p i)"
      by (simp add: iterate_fail_step fetch_def del: iterate.simps)
    then show ?thesis by blast
  next
    case (Broken m)
    with Cons.prems have "requested (iterate codes Host h p i g self (r # rs)) =
        next_url g self h p i # replicate 0 (later_url g self h p i)"
      by (simp add: iterate_fail_step fetch_def del: iterate.simps)
    then show ?thesis by blast
  qed
qed

lemma analyze_requested:
  "rs \<noteq> [] \<Longrightarrow>
     \<exists>n. requested (analyze codes Host self h p i rs) =
           start_url self h p i # replicate n (poll_url self h p i)"
  using requested_shape [of Created rs codes Host h p i self]
  by (simp add: analyze_def next_url_def later_url_def)

section \<open>The components that urlsplit returns\<close>

lemma lower_scheme_char:
  "c \<in> set scheme_chars \<Longrightarrow> lower_char c \<in> set scheme_chars \<and> lower_char (lower_char c) = lower_char c"
proof -
  have "\<forall>c \<in> set scheme_chars. lower_char c \<in> set scheme_chars \<and> lower_char (lower_char c) = lower_char c"
    by code_simp
  then show "c \<in> set scheme_chars \<Longrightarrow> lower_char c \<in> set scheme_chars \<and> lower_char (lower_char c) = lower_char c"
    by blast
qed

lemma scheme_char_plain:
  "c \<in> set scheme_chars \<Longrightarrow>
     c \<noteq> CHR ''?'' \<and> c \<noteq> CHR ''#'' \<and> c \<noteq> CHR '':'' \<and> c \<noteq> CHR ''/''
     \<and> \<not> unsafe_url_byte c \<and> \<not> c0_control_or_space c"
proof -
  have "\<forall>c \<in> set scheme_chars. c \<noteq> CHR ''?'' \<and> c \<noteq> CHR ''#'' \<and> c \<noteq> CHR '':'' \<and> c \<noteq> CHR ''/''
     \<and> \<not> unsafe_url_byte c \<and> \<not> c0_control_or_space c"
    by code_simp
  then show "c \<in> set scheme_chars \<Longrightarrow>
     c \<noteq> CHR ''?'' \<and> c \<noteq> CHR ''#'' \<and> c \<noteq> CHR '':'' \<and> c \<noteq> CHR ''/''
     \<and> \<not> unsafe_url_byte c \<and> \<not> c0_control_or_space c"
    by blast
qed

lemma alpha_lower:
  "ascii_alpha c \<Longrightarrow> ascii_alpha (lower_char c) \<and> c \<in> set scheme_chars"
proof -
  have "\<forall>c \<in> set ''abcdefghijklmnopqrstuvwxyzABCDEFGHIJKLMNOPQRSTUVWXYZ''.
          ascii_alpha (lower_char c) \<and> c \<in> set scheme_chars"
    by code_simp
  then show "ascii_alpha c \<Longrightarrow> ascii_alpha (lower_char c) \<and> c \<in> set scheme_chars"
    unfolding ascii_alpha_def by blast
qed

text \<open>What \<^const>\<open>split_scheme\<close> returns.\<close>

lemma split_scheme_cases:
  "split_scheme url = ('''', url) \<or>
   (\<exists>pre rest. url = pre @ CHR '':'' # rest \<and> pre \<noteq> [] \<and> ascii_alpha (hd pre)
       \<and> (\<forall>c \<in> set pre. c \<in> set scheme_chars)
       \<and> split_scheme url = (map lower_char pre, rest))"
proof (cases "CHR '':'' \<in> set url")
  case False
  then show ?thesis by (simp add: split_scheme_def find_char_def)
next
  case True
  define pre where "pre = takeWhile (\<lambda>x. x \<noteq> CHR '':'') url"
  define rest where "rest = drop 1 (dropWhile (\<lambda>x. x \<noteq> CHR '':'') url)"
  have "dropWhile (\<lambda>x. x \<noteq> CHR '':'') url \<noteq> []" using True by (simp add: dropWhile_eq_Nil_conv)
  moreover have "hd (dropWhile (\<lambda>x. x \<noteq> CHR '':'') url) = CHR '':''"
    using True hd_dropWhile [of "\<lambda>x. x \<noteq> CHR '':''" url] by (auto simp: dropWhile_eq_Nil_conv)
  ultimately have dw: "dropWhile (\<lambda>x. x \<noteq> CHR '':'') url = CHR '':'' # rest"
    unfolding rest_def by (cases "dropWhile (\<lambda>x. x \<noteq> CHR '':'') url") auto
  have url: "url = pre @ CHR '':'' # rest"
    using takeWhile_dropWhile_id [of "\<lambda>x. x \<noteq> CHR '':''" url] dw pre_def by simp
  have nocolon: "CHR '':'' \<notin> set pre" unfolding pre_def by (auto dest: set_takeWhileD)
  have tk: "take (length pre) url = pre" by (simp add: url)
  have dr: "drop (Suc (length pre)) url = rest" by (simp add: url)
  have fc: "find_char CHR '':'' url = Some (length pre)"
    using True by (simp add: find_char_def pre_def)
  show ?thesis
  proof (cases "pre \<noteq> [] \<and> ascii_alpha (url ! 0) \<and> (\<forall>c \<in> set pre. c \<in> set scheme_chars)")
    case True
    then have "url ! 0 = hd pre" by (cases pre) (simp_all add: url)
    with True have "split_scheme url = (map lower_char pre, rest)"
      by (simp add: split_scheme_def fc tk dr)
    with True url \<open>url ! 0 = hd pre\<close> show ?thesis by auto
  next
    case False
    then have "split_scheme url = ('''', url)"
      by (auto simp: split_scheme_def fc tk)
    then show ?thesis by simp
  qed
qed

lemma split1_fst: "fst (split1 c s) = takeWhile (\<lambda>x. x \<noteq> c) s"
  by (simp add: split1_def)

lemma takeWhile_all: "c \<notin> set s \<Longrightarrow> takeWhile (\<lambda>x. x \<noteq> c) s = s"
  by (simp add: takeWhile_eq_all_conv) blast

lemma urlsplit_Inr_iff:
  "(urlsplit lib v = (Inr parts :: 'k exn + SplitResult)) \<longleftrightarrow>
     (let u1 = filter (\<lambda>c. \<not> unsafe_url_byte c) (lstrip c0_control_or_space v);
          s = fst (split_scheme u1); u2 = snd (split_scheme u1);
          n = (if take 2 u2 = ''//'' then fst (splitnetloc2 u2) else []);
          u3 = (if take 2 u2 = ''//'' then snd (splitnetloc2 u2) else u2);
          u4 = takeWhile (\<lambda>x. x \<noteq> CHR ''#'') u3
      in netloc_accepted lib n \<and>
         parts = \<lparr>scheme_of = s, netloc_of = n, path_of = takeWhile (\<lambda>x. x \<noteq> CHR ''?'') u4,
                   query_of = (if CHR ''?'' \<in> set u4 then snd (split1 CHR ''?'' u4) else []),
                   fragment_of = (if CHR ''#'' \<in> set u3 then snd (split1 CHR ''#'' u3) else [])\<rparr>)"
  unfolding urlsplit_def Let_def netloc_accepted_def
  by (simp add: split1_def takeWhile_all split: prod.splits option.splits) blast

section \<open>What the setter stores\<close>

lemma set_rstrip: "set (rstrip P s) \<subseteq> set s"
  unfolding rstrip_def using set_dropWhileD [of _ P "rev s"] by auto

lemma split_scheme_chars:
  "split_scheme u = (s, r) \<Longrightarrow> c \<in> set s \<Longrightarrow> c \<in> set scheme_chars"
  using split_scheme_cases [of u] lower_scheme_char by auto

lemma split_scheme_rest:
  "split_scheme u = (s, r) \<Longrightarrow> set r \<subseteq> set u"
  using split_scheme_cases [of u] by auto

lemma urlsplit_no_query_chars:
  assumes "urlsplit lib v = (Inr parts :: 'k exn + SplitResult)"
  shows "\<forall>c \<in> set (scheme_of parts @ netloc_of parts @ path_of parts). c \<noteq> CHR ''?'' \<and> c \<noteq> CHR ''#''"
proof -
  define u1 where "u1 = filter (\<lambda>c. \<not> unsafe_url_byte c) (lstrip c0_control_or_space v)"
  define u2 where "u2 = snd (split_scheme u1)"
  define u3 where "u3 = (if take 2 u2 = ''//'' then snd (splitnetloc2 u2) else u2)"
  from assms have s: "scheme_of parts = fst (split_scheme u1)"
    and n: "netloc_of parts = (if take 2 u2 = ''//'' then fst (splitnetloc2 u2) else [])"
    and p: "path_of parts = takeWhile (\<lambda>x. x \<noteq> CHR ''?'') (takeWhile (\<lambda>x. x \<noteq> CHR ''#'') u3)"
    unfolding urlsplit_Inr_iff Let_def u1_def u2_def u3_def by simp_all
  have "c \<in> set scheme_chars" if "c \<in> set (scheme_of parts)" for c
    using that split_scheme_chars [of u1 "fst (split_scheme u1)" "snd (split_scheme u1)" c]
    unfolding s by simp
  then have 1: "c \<noteq> CHR ''?'' \<and> c \<noteq> CHR ''#''" if "c \<in> set (scheme_of parts)" for c
    using that scheme_char_plain [of c] by blast
  have 2: "c \<noteq> CHR ''?'' \<and> c \<noteq> CHR ''#''" if "c \<in> set (netloc_of parts)" for c
    using that set_takeWhileD [of c "\<lambda>c. c \<notin> set ''/?#''" "drop 2 u2"]
    unfolding n splitnetloc2_def by (cases "take 2 u2 = ''//''") auto
  have 3: "c \<noteq> CHR ''?'' \<and> c \<noteq> CHR ''#''" if "c \<in> set (path_of parts)" for c
  proof -
    from that have a: "c \<noteq> CHR ''?''" and "c \<in> set (takeWhile (\<lambda>x. x \<noteq> CHR ''#'') u3)"
      unfolding p by (auto dest: set_takeWhileD)
    then have "c \<noteq> CHR ''#''" by (auto dest: set_takeWhileD)
    with a show ?thesis by simp
  qed
  show ?thesis using 1 2 3 by auto
qed

lemma entrypoint_set_Inr:
  "entrypoint_set lib self v = (Inr self' :: 'k exn + 'h Client) \<Longrightarrow>
     \<exists>parts. urlsplit lib v = (Inr parts :: 'k exn + SplitResult)
       \<and> Client_scheme self' = scheme_of parts \<and> Client_netloc self' = netloc_of parts
       \<and> Client_path self' = rstrip (\<lambda>c. c \<in> set ''/'') (path_of parts)
       \<and> Client_host self' = Client_host self"
  unfolding entrypoint_set_def by (cases "urlsplit lib v :: 'k exn + SplitResult") auto

lemma entrypoint_set_configured:
  assumes "entrypoint_set lib self v = (Inr self' :: 'k exn + 'h Client)"
  shows "configured self'"
proof -
  from entrypoint_set_Inr [OF assms] obtain parts
    where ok: "urlsplit lib v = (Inr parts :: 'k exn + SplitResult)"
      and s: "Client_scheme self' = scheme_of parts" and n: "Client_netloc self' = netloc_of parts"
      and p: "Client_path self' = rstrip (\<lambda>c. c \<in> set ''/'') (path_of parts)"
    by blast
  have "set (Client_scheme self' @ Client_netloc self' @ Client_path self')
          \<subseteq> set (scheme_of parts @ netloc_of parts @ path_of parts)"
    unfolding s n p using set_rstrip [of "\<lambda>c. c \<in> set ''/''" "path_of parts"] by auto
  then show ?thesis
    unfolding configured_def using urlsplit_no_query_chars [OF ok] by blast
qed

lemma Client_init_configured:
  assumes "Client_init lib v = (Inr self :: 'k exn + 'h Client)"
  shows "configured self"
proof -
  from assms obtain s0 where a: "entrypoint_set lib
        \<lparr>Client_scheme = '''', Client_netloc = '''', Client_path = '''', Client_host = None\<rparr> v
        = (Inr s0 :: 'k exn + 'h Client)" and b: "self = s0\<lparr>Client_host := None\<rparr>"
    unfolding Client_init_def
    by (cases "entrypoint_set lib
        \<lparr>Client_scheme = '''', Client_netloc = '''', Client_path = '''', Client_host = None\<rparr> v
        :: 'k exn + 'h Client") auto
  from entrypoint_set_configured [OF a] show ?thesis
    unfolding b configured_def by simp
qed

section \<open>The query parameters of the requests\<close>

text \<open>
  Claim C8. In a run for the host name \<open>h\<close> with the flags \<open>p\<close> (publish) and \<open>i\<close>
  (ignoreMismatch), on a session configured by the setter, the parameters of the first
  request are \<^verbatim>\<open>startNew=on\<close>, \<^verbatim>\<open>host=h\<close>, \<^verbatim>\<open>all=done\<close>, then \<^verbatim>\<open>publish=on\<close> if and
  only if \<open>p\<close>, then \<^verbatim>\<open>ignoreMismatch=on\<close> if and only if \<open>i\<close>, and nothing else; the
  parameters of every later request are the same without \<^verbatim>\<open>startNew=on\<close>. The host name
  comes back decoded, whatever characters it has.
\<close>

theorem analyze_request_params:
  assumes "configured self"
    and "requested (analyze codes Host self h p i rs) = u0 # us"
  shows "request_params u0 =
           [(''startNew'', ''on''), (''host'', h), (''all'', ''done'')]
             @ (if p then [(''publish'', ''on'')] else [])
             @ (if i then [(''ignoreMismatch'', ''on'')] else [])
       \<and> (\<forall>u \<in> set us. request_params u =
             [(''host'', h), (''all'', ''done'')]
               @ (if p then [(''publish'', ''on'')] else [])
               @ (if i then [(''ignoreMismatch'', ''on'')] else []))"
proof -
  have "rs \<noteq> []" using assms(2) by (auto simp: analyze_def)
  from analyze_requested [OF this, of codes Host self h p i] assms(2)
  obtain n where "u0 = start_url self h p i" and "us = replicate n (poll_url self h p i)"
    by auto
  then show ?thesis
    using request_params_start_url [OF assms(1), of h p i] request_params_poll_url [OF assms(1), of h p i]
    by (auto simp: analyze_query_eq)
qed

theorem analyze_request_params_witness:
  "request_params ''https://api.ssllabs.com/api/v2/analyze?startNew=on&host=exa+mple.com%26x%3D1&all=done&publish=on'' =
     [(''startNew'', ''on''), (''host'', ''exa mple.com&x=1''), (''all'', ''done''), (''publish'', ''on'')]
 \<and> request_params ''https://api.ssllabs.com/api/v2/analyze?host=exa+mple.com%26x%3D1&all=done&publish=on'' =
     [(''host'', ''exa mple.com&x=1''), (''all'', ''done''), (''publish'', ''on'')]"
proof -
  have cfg: "configured \<lparr>Client_scheme = ''https'', Client_netloc = ''api.ssllabs.com'',
      Client_path = ''/api/v2'', Client_host = None :: pyval option\<rparr>"
    by (simp add: configured_def)
  have req: "requested (analyze (\<lambda>c. if c = 429 then Some ''RateLimitError'' else None) (\<lambda>d. d)
       \<lparr>Client_scheme = ''https'', Client_netloc = ''api.ssllabs.com'', Client_path = ''/api/v2'',
        Client_host = None\<rparr>
       ''exa mple.com&x=1'' True False
       [Body (PDict [(''status'', PStr ''DNS'')]), Body (PDict [(''status'', PStr ''READY'')])]) =
     ''https://api.ssllabs.com/api/v2/analyze?startNew=on&host=exa+mple.com%26x%3D1&all=done&publish=on''
       # [''https://api.ssllabs.com/api/v2/analyze?host=exa+mple.com%26x%3D1&all=done&publish=on'']"
    by code_simp
  from analyze_request_params [OF cfg req] show ?thesis
    by simp
qed

section \<open>The one-shot startNew parameter\<close>

text \<open>
  Claim C2. In every run that makes a request, on a session configured by the setter, the
  query of the first request has the parameter \<^verbatim>\<open>startNew=on\<close>, and no later request of
  the run has a parameter named \<^verbatim>\<open>startNew\<close>.
\<close>

theorem analyze_start_new_once:
  assumes "configured self" and "rs \<noteq> []"
  shows "requested (analyze codes Host self h p i rs) \<noteq> []
       \<and> (''startNew'', ''on'') \<in> set (request_params (hd (requested (analyze codes Host self h p i rs))))
       \<and> (\<forall>u \<in> set (tl (requested (analyze codes Host self h p i rs))).
             ''startNew'' \<notin> fst ` set (request_params u))"
proof -
  from analyze_requested [OF assms(2), of codes Host self h p i]
  obtain n where r: "requested (analyze codes Host self h p i rs) =
      start_url self h p i # replicate n (poll_url self h p i)"
    by auto
  show ?thesis
    unfolding r
    using request_params_start_url [OF assms(1), of h p i] request_params_poll_url [OF assms(1), of h p i]
    by (auto simp: analyze_query_eq)
qed

theorem analyze_start_new_once_witness:
  "(''startNew'', ''on'') \<in> set (request_params
       ''https://api.ssllabs.com/api/v2/analyze?startNew=on&host=startNew%3Don%26startNew&all=done&ignoreMismatch=on'')
 \<and> ''startNew'' \<notin> fst ` set (request_params
       ''https://api.ssllabs.com/api/v2/analyze?host=startNew%3Don%26startNew&all=done&ignoreMismatch=on'')"
proof -
  have cfg: "configured \<lparr>Client_scheme = ''https'', Client_netloc = ''api.ssllabs.com'',
      Client_path = ''/api/v2'', Client_host = None :: pyval option\<rparr>"
    by (simp add: configured_def)
  have ne: "[Body (PDict [(''status'', PStr ''DNS'')]), Status 503 ''Service Unavailable''] \<noteq> []"
    by simp
  have req: "requested (analyze (\<lambda>c. if c = 429 then Some ''RateLimitError'' else None) (\<lambda>d. d)
       \<lparr>Client_scheme = ''https'', Client_netloc = ''api.ssllabs.com'', Client_path = ''/api/v2'',
        Client_host = None\<rparr>
       ''startNew=on&startNew'' False True
       [Body (PDict [(''status'', PStr ''DNS'')]), Status 503 ''Service Unavailable'']) =
     [''https://api.ssllabs.com/api/v2/analyze?startNew=on&host=startNew%3Don%26startNew&all=done&ignoreMismatch=on'',
      ''https://api.ssllabs.com/api/v2/analyze?host=startNew%3Don%26startNew&all=done&ignoreMismatch=on'']"
    by code_simp
  from analyze_start_new_once [OF cfg ne,
      of "\<lambda>c. if c = 429 then Some ''RateLimitError'' else None" "\<lambda>d. d"
         "''startNew=on&startNew''" False True]
  show ?thesis
    unfolding req by simp
qed

section \<open>The round trip of the entrypoint\<close>

text \<open>
  The URL that \<^const>\<open>urlunsplit\<close> makes of a scheme, a network location that is not empty
  and a path, as \<^const>\<open>urlsplit\<close> returns them, is split into these three again.
\<close>

lemma alpha_not_space: "ascii_alpha c \<Longrightarrow> \<not> c0_control_or_space c \<and> \<not> unsafe_url_byte c"
  using alpha_lower [of c] scheme_char_plain [of c] by blast

lemma slash_plain:
  "\<not> ascii_alpha CHR ''/'' \<and> \<not> c0_control_or_space CHR ''/'' \<and> \<not> unsafe_url_byte CHR ''/''
   \<and> \<not> unsafe_url_byte CHR '':''"
  by code_simp

lemma split_scheme_none:
  "\<not> ascii_alpha (hd w) \<Longrightarrow> w \<noteq> [] \<Longrightarrow> split_scheme w = ('''', w)"
  by (cases w) (auto simp: split_scheme_def split: option.splits)

lemma split_scheme_some:
  assumes "s \<noteq> []" and "ascii_alpha (hd s)"
    and "\<forall>c \<in> set s. c \<in> set scheme_chars \<and> lower_char c = c"
  shows "split_scheme (s @ CHR '':'' # rest) = (s, rest)"
proof -
  have nocolon: "CHR '':'' \<notin> set s"
    using assms(3) scheme_char_plain by blast
  then have tw: "takeWhile (\<lambda>x. x \<noteq> CHR '':'') (s @ CHR '':'' # rest) = s"
    by (subst takeWhile_append2) auto
  have fc: "find_char CHR '':'' (s @ CHR '':'' # rest) = Some (length s)"
    by (simp add: find_char_def tw)
  have h: "(s @ CHR '':'' # rest) ! 0 = hd s"
    using assms(1) by (cases s) simp_all
  have low: "map lower_char s = s"
    using assms(3) by (simp add: map_idI)
  show ?thesis
    using assms by (simp add: split_scheme_def fc h low)
qed

lemma urlsplit_assembled:
  assumes n: "n \<noteq> []" "\<forall>c \<in> set n. c \<notin> set ''/?#'' \<and> \<not> unsafe_url_byte c"
    and p: "p = [] \<or> hd p = CHR ''/''"
      "\<forall>c \<in> set p. c \<noteq> CHR ''?'' \<and> c \<noteq> CHR ''#'' \<and> \<not> unsafe_url_byte c"
    and s: "s = [] \<or> (ascii_alpha (hd s) \<and> (\<forall>c \<in> set s. c \<in> set scheme_chars \<and> lower_char c = c))"
    and acc: "netloc_accepted lib n"
  shows "urlsplit lib (urlunsplit (s, n, p, '''', '''')) =
           (Inr \<lparr>scheme_of = s, netloc_of = n, path_of = p, query_of = '''', fragment_of = ''''\<rparr>
              :: 'k exn + SplitResult)"
proof -
  define r where "r = ''//'' @ n @ p"
  define w where "w = (if s = [] then r else s @ CHR '':'' # r)"
  have un: "urlunsplit (s, n, p, '''', '''') = w"
    using n(1) p(1) unfolding urlunsplit_def w_def r_def Let_def
    by (cases p) auto
  have sc: "\<not> unsafe_url_byte c \<and> \<not> c0_control_or_space c" if "c \<in> set s" for c
    using that s scheme_char_plain [of c] by auto
  have safe: "\<not> unsafe_url_byte c" if "c \<in> set w" for c
  proof -
    from that have "c \<in> set s \<or> c = CHR '':'' \<or> c = CHR ''/'' \<or> c \<in> set n \<or> c \<in> set p"
      unfolding w_def r_def by (auto split: if_splits)
    then show ?thesis
      using sc [of c] n(2) p(2) slash_plain by blast
  qed
  have hdw: "\<not> c0_control_or_space (hd w)" and ne: "w \<noteq> []"
    using s sc [of "hd s"] slash_plain unfolding w_def r_def
    by (auto simp: hd_append)
  have l: "lstrip c0_control_or_space w = w"
    using hdw ne unfolding lstrip_def by (cases w) auto
  have f: "filter (\<lambda>c. \<not> unsafe_url_byte c) w = w"
    using safe by (simp add: filter_id_conv)
  have ss: "split_scheme w = (s, r)"
  proof (cases "s = []")
    case True
    then have "w = r" by (simp add: w_def)
    moreover have "split_scheme r = ('''', r)"
      using slash_plain by (intro split_scheme_none) (simp_all add: r_def)
    ultimately show ?thesis using True by simp
  next
    case False
    then show ?thesis
      using s split_scheme_some [of s r] by (simp add: w_def)
  qed
  have tk: "take 2 r = ''//''" by (simp add: r_def)
  have tw: "takeWhile (\<lambda>c. c \<notin> set ''/?#'') (n @ p) = n"
    using n(2) p(1) by (cases p) (auto simp: takeWhile_append2 takeWhile_eq_all_conv)
  have dw: "dropWhile (\<lambda>c. c \<notin> set ''/?#'') (n @ p) = p"
    using n(2) p(1) by (cases p) (auto simp: dropWhile_append2 dropWhile_eq_Nil_conv)
  have sn: "splitnetloc2 r = (n, p)"
    unfolding splitnetloc2_def r_def using tw dw by simp
  have ph: "CHR ''#'' \<notin> set p" and pq: "CHR ''?'' \<notin> set p"
    using p(2) by auto
  show ?thesis
    unfolding un urlsplit_Inr_iff Let_def l f ss
    using acc ph pq by (simp add: tk sn takeWhile_all)
qed

lemma rstrip_prefix: "rstrip P s = take (length (rstrip P s)) s"
proof -
  define a where "a = rstrip P s"
  define b where "b = rev (takeWhile P (rev s))"
  have "s = rev (takeWhile P (rev s) @ dropWhile P (rev s))"
    by (simp only: takeWhile_dropWhile_id rev_rev_ident)
  also have "\<dots> = a @ b"
    by (simp only: rev_append a_def b_def rstrip_def)
  finally have "s = a @ b" .
  then have "take (length a) s = a" by simp
  then show ?thesis unfolding a_def by simp
qed

lemma rstrip_hd: "rstrip P s \<noteq> [] \<Longrightarrow> hd (rstrip P s) = hd s"
  using rstrip_prefix [of P s] by (metis hd_take length_greater_0_conv)

text \<open>The components that \<^const>\<open>urlsplit\<close> returns with a network location that is not empty.\<close>

lemma urlsplit_netloc_parts:
  assumes ok: "urlsplit lib v = (Inr parts :: 'k exn + SplitResult)" and ne: "netloc_of parts \<noteq> []"
  shows "netloc_accepted lib (netloc_of parts)"
    and "\<forall>c \<in> set (netloc_of parts). c \<notin> set ''/?#'' \<and> \<not> unsafe_url_byte c"
    and "path_of parts = [] \<or> hd (path_of parts) = CHR ''/''"
    and "\<forall>c \<in> set (path_of parts). c \<noteq> CHR ''?'' \<and> c \<noteq> CHR ''#'' \<and> \<not> unsafe_url_byte c"
    and "scheme_of parts = [] \<or>
         (ascii_alpha (hd (scheme_of parts))
          \<and> (\<forall>c \<in> set (scheme_of parts). c \<in> set scheme_chars \<and> lower_char c = c))"
proof -
  define u1 where "u1 = filter (\<lambda>c. \<not> unsafe_url_byte c) (lstrip c0_control_or_space v)"
  define u2 where "u2 = snd (split_scheme u1)"
  define d where "d = dropWhile (\<lambda>c. c \<notin> set ''/?#'') (drop 2 u2)"
  from ok have s: "scheme_of parts = fst (split_scheme u1)"
    and n0: "netloc_of parts = (if take 2 u2 = ''//'' then fst (splitnetloc2 u2) else [])"
    and p0: "path_of parts = takeWhile (\<lambda>x. x \<noteq> CHR ''?'') (takeWhile (\<lambda>x. x \<noteq> CHR ''#'')
               (if take 2 u2 = ''//'' then snd (splitnetloc2 u2) else u2))"
    and acc: "netloc_accepted lib (if take 2 u2 = ''//'' then fst (splitnetloc2 u2) else [])"
    unfolding urlsplit_Inr_iff Let_def u1_def u2_def by simp_all
  from ne n0 have sl: "take 2 u2 = ''//''" by (auto split: if_splits)
  have n: "netloc_of parts = takeWhile (\<lambda>c. c \<notin> set ''/?#'') (drop 2 u2)"
    using n0 sl by (simp add: splitnetloc2_def)
  have p: "path_of parts = takeWhile (\<lambda>x. x \<noteq> CHR ''?'') (takeWhile (\<lambda>x. x \<noteq> CHR ''#'') d)"
    using p0 sl by (simp add: splitnetloc2_def d_def)
  show "netloc_accepted lib (netloc_of parts)"
    using acc n0 by simp
  have u1safe: "\<not> unsafe_url_byte c" if "c \<in> set u1" for c
    using that unfolding u1_def by simp
  have u2sub: "set u2 \<subseteq> set u1"
    using split_scheme_rest [of u1 "fst (split_scheme u1)" u2] unfolding u2_def by simp
  have u2safe: "\<not> unsafe_url_byte c" if "c \<in> set u2" for c
    using that u2sub u1safe by blast
  show "\<forall>c \<in> set (netloc_of parts). c \<notin> set ''/?#'' \<and> \<not> unsafe_url_byte c"
  proof
    fix c assume "c \<in> set (netloc_of parts)"
    then have a: "c \<in> set (drop 2 u2)" and b: "c \<notin> set ''/?#''"
      unfolding n by (auto dest: set_takeWhileD)
    from a have "c \<in> set u2" by (rule in_set_dropD)
    with b u2safe show "c \<notin> set ''/?#'' \<and> \<not> unsafe_url_byte c" by blast
  qed
  have dsub: "set d \<subseteq> set u2"
    unfolding d_def using set_dropWhileD [of _ "\<lambda>c. c \<notin> set ''/?#''" "drop 2 u2"] in_set_dropD [of _ 2 u2]
    by blast
  show "\<forall>c \<in> set (path_of parts). c \<noteq> CHR ''?'' \<and> c \<noteq> CHR ''#'' \<and> \<not> unsafe_url_byte c"
  proof
    fix c assume c: "c \<in> set (path_of parts)"
    then have a: "c \<noteq> CHR ''?''" and "c \<in> set (takeWhile (\<lambda>x. x \<noteq> CHR ''#'') d)"
      unfolding p by (auto dest: set_takeWhileD)
    then have b: "c \<noteq> CHR ''#''" and "c \<in> set d"
      by (auto dest: set_takeWhileD)
    with dsub u2safe a show "c \<noteq> CHR ''?'' \<and> c \<noteq> CHR ''#'' \<and> \<not> unsafe_url_byte c" by blast
  qed
  show "path_of parts = [] \<or> hd (path_of parts) = CHR ''/''"
  proof (cases d)
    case Nil
    then show ?thesis by (simp add: p)
  next
    case (Cons x xs)
    then have "d \<noteq> []" by simp
    then have "hd d \<in> set ''/?#''"
      using hd_dropWhile [of "\<lambda>c. c \<notin> set ''/?#''" "drop 2 u2"] unfolding d_def by blast
    then have "x = CHR ''/'' \<or> x = CHR ''?'' \<or> x = CHR ''#''"
      using Cons by simp
    then show ?thesis
      unfolding p Cons by (elim disjE) simp_all
  qed
  show "scheme_of parts = [] \<or>
         (ascii_alpha (hd (scheme_of parts))
          \<and> (\<forall>c \<in> set (scheme_of parts). c \<in> set scheme_chars \<and> lower_char c = c))"
  proof -
    from split_scheme_cases [of u1] show ?thesis
    proof
      assume "split_scheme u1 = ('''', u1)"
      then show ?thesis by (simp add: s)
    next
      assume "\<exists>pre rest. u1 = pre @ CHR '':'' # rest \<and> pre \<noteq> [] \<and> ascii_alpha (hd pre)
         \<and> (\<forall>c \<in> set pre. c \<in> set scheme_chars) \<and> split_scheme u1 = (map lower_char pre, rest)"
      then obtain pre rest where pre: "pre \<noteq> []" "ascii_alpha (hd pre)"
          "\<forall>c \<in> set pre. c \<in> set scheme_chars" and sp: "split_scheme u1 = (map lower_char pre, rest)"
        by blast
      have e: "scheme_of parts = map lower_char pre" using sp by (simp add: s)
      have "hd (map lower_char pre) = lower_char (hd pre)" using pre(1) by (simp add: hd_map)
      then have 1: "ascii_alpha (hd (scheme_of parts))"
        using alpha_lower [OF pre(2)] by (simp add: e)
      have 2: "c \<in> set scheme_chars \<and> lower_char c = c" if "c \<in> set (scheme_of parts)" for c
      proof -
        from that obtain x where "x \<in> set pre" "c = lower_char x" unfolding e by auto
        then show ?thesis using pre(3) lower_scheme_char [of x] by simp
      qed
      from 1 2 show ?thesis by blast
    qed
  qed
qed


lemma rstrip_idem: "rstrip P (rstrip P s) = rstrip P s"
  by (simp add: rstrip_def)

text \<open>
  A session whose network location is not empty, as the setter has configured it: the URL
  that the getter returns is split into the three stored attributes.
\<close>

lemma entrypoint_reparsed:
  assumes ok: "urlsplit lib v = (Inr parts :: 'k exn + SplitResult)"
    and nn: "netloc_of parts \<noteq> []"
    and s: "Client_scheme self' = scheme_of parts" and n: "Client_netloc self' = netloc_of parts"
    and p: "Client_path self' = rstrip (\<lambda>c. c \<in> set ''/'') (path_of parts)"
  shows "urlsplit lib (entrypoint self') =
           (Inr \<lparr>scheme_of = Client_scheme self', netloc_of = Client_netloc self',
                 path_of = Client_path self', query_of = '''', fragment_of = ''''\<rparr>
              :: 'k exn + SplitResult)"
proof -
  note parts = urlsplit_netloc_parts [OF ok nn]
  have p1: "Client_path self' = [] \<or> hd (Client_path self') = CHR ''/''"
  proof (cases "Client_path self' = []")
    case True
    then show ?thesis by simp
  next
    case False
    then have "hd (Client_path self') = hd (path_of parts)"
      unfolding p by (rule rstrip_hd)
    moreover have "path_of parts \<noteq> []"
      using False unfolding p rstrip_def by auto
    ultimately show ?thesis using parts(3) by simp
  qed
  have p2: "\<forall>c \<in> set (Client_path self'). c \<noteq> CHR ''?'' \<and> c \<noteq> CHR ''#'' \<and> \<not> unsafe_url_byte c"
    using parts(4) set_rstrip [of "\<lambda>c. c \<in> set ''/''" "path_of parts"] unfolding p by blast
  have n1: "Client_netloc self' \<noteq> []"
    and n2: "\<forall>c \<in> set (Client_netloc self'). c \<notin> set ''/?#'' \<and> \<not> unsafe_url_byte c"
    and s1: "Client_scheme self' = [] \<or>
         (ascii_alpha (hd (Client_scheme self'))
          \<and> (\<forall>c \<in> set (Client_scheme self'). c \<in> set scheme_chars \<and> lower_char c = c))"
    and acc: "netloc_accepted lib (Client_netloc self')"
    unfolding s n using nn parts(1) parts(2) parts(5) by blast+
  show ?thesis
    unfolding entrypoint_def by (rule urlsplit_assembled [OF n1 n2 p1 p2 s1 acc])
qed

text \<open>
  Claim C6. Let the setter accept a base URL with a network location (a scheme, a host/port
  authority and a path, as the endpoint configuration decomposes it). Parsing again the URL
  that the \<^verbatim>\<open>entrypoint\<close> getter then returns gives the scheme and the network location
  of the URL that was set and its path without the trailing slashes, with no query and no
  fragment; and setting the \<^verbatim>\<open>entrypoint\<close> to the URL that the getter returns leaves the
  session as it is. For a URL without a network location, what \<^verbatim>\<open>urlunsplit\<close> returns
  depends on the release of the library, and nothing is stated.
\<close>

theorem entrypoint_round_trip:
  assumes ok: "urlsplit lib v = (Inr parts :: 'k exn + SplitResult)"
    and nn: "netloc_of parts \<noteq> []"
    and st: "entrypoint_set lib self v = (Inr self' :: 'k exn + 'h Client)"
  shows "urlsplit lib (entrypoint self') =
           (Inr \<lparr>scheme_of = scheme_of parts, netloc_of = netloc_of parts,
                 path_of = rstrip (\<lambda>c. c \<in> set ''/'') (path_of parts),
                 query_of = '''', fragment_of = ''''\<rparr> :: 'k exn + SplitResult)
       \<and> entrypoint_set lib self' (entrypoint self') = (Inr self' :: 'k exn + 'h Client)"
proof -
  from st ok have s: "Client_scheme self' = scheme_of parts"
    and n: "Client_netloc self' = netloc_of parts"
    and p: "Client_path self' = rstrip (\<lambda>c. c \<in> set ''/'') (path_of parts)"
    by (auto simp: entrypoint_set_def)
  note r = entrypoint_reparsed [OF ok nn s n p]
  have q: "rstrip (\<lambda>c. c \<in> set ''/'') (Client_path self') = Client_path self'"
    unfolding p by (rule rstrip_idem)
  have 1: "urlsplit lib (entrypoint self') =
           (Inr \<lparr>scheme_of = scheme_of parts, netloc_of = netloc_of parts,
                 path_of = rstrip (\<lambda>c. c \<in> set ''/'') (path_of parts),
                 query_of = '''', fragment_of = ''''\<rparr> :: 'k exn + SplitResult)"
    using r unfolding s n p .
  have 2: "entrypoint_set lib self' (entrypoint self') = (Inr self' :: 'k exn + 'h Client)"
    using q by (simp add: entrypoint_set_def r)
  from 1 2 show ?thesis by (rule conjI)
qed

theorem entrypoint_round_trip_witness:
  "urlsplit \<lparr>check_bracketed_netloc = (\<lambda>_. None), checknetloc = (\<lambda>_. None)\<rparr>
       (entrypoint \<lparr>Client_scheme = ''https'', Client_netloc = ''api.ssllabs.com'',
                     Client_path = ''/api/v2'', Client_host = None :: pyval option\<rparr>) =
     (Inr \<lparr>scheme_of = ''https'', netloc_of = ''api.ssllabs.com'', path_of = ''/api/v2'',
           query_of = '''', fragment_of = ''''\<rparr> :: string exn + SplitResult)
 \<and> entrypoint_set \<lparr>check_bracketed_netloc = (\<lambda>_. None), checknetloc = (\<lambda>_. None)\<rparr>
       \<lparr>Client_scheme = ''https'', Client_netloc = ''api.ssllabs.com'',
        Client_path = ''/api/v2'', Client_host = None\<rparr>
       (entrypoint \<lparr>Client_scheme = ''https'', Client_netloc = ''api.ssllabs.com'',
                     Client_path = ''/api/v2'', Client_host = None :: pyval option\<rparr>) =
     (Inr \<lparr>Client_scheme = ''https'', Client_netloc = ''api.ssllabs.com'',
           Client_path = ''/api/v2'', Client_host = None\<rparr> :: string exn + pyval Client)"
proof -
  have ok: "urlsplit \<lparr>check_bracketed_netloc = (\<lambda>_. None), checknetloc = (\<lambda>_. None)\<rparr>
        ''HTTPS://api.ssllabs.com/api/v2//?all=done#top'' =
      (Inr \<lparr>scheme_of = ''https'', netloc_of = ''api.ssllabs.com'', path_of = ''/api/v2//'',
            query_of = ''all=done'', fragment_of = ''top''\<rparr> :: string exn + SplitResult)"
    by code_simp
  have nn: "netloc_of \<lparr>scheme_of = ''https'', netloc_of = ''api.ssllabs.com'', path_of = ''/api/v2//'',
            query_of = ''all=done'', fragment_of = ''top''\<rparr> \<noteq> []"
    by simp
  have st: "entrypoint_set \<lparr>check_bracketed_netloc = (\<lambda>_. None), checknetloc = (\<lambda>_. None)\<rparr>
        \<lparr>Client_scheme = ''http'', Client_netloc = ''localhost'', Client_path = '''', Client_host = None\<rparr>
        ''HTTPS://api.ssllabs.com/api/v2//?all=done#top'' =
      (Inr \<lparr>Client_scheme = ''https'', Client_netloc = ''api.ssllabs.com'',
            Client_path = ''/api/v2'', Client_host = None\<rparr> :: string exn + pyval Client)"
    by code_simp
  from entrypoint_round_trip [OF ok nn st] show ?thesis
    by (simp add: rstrip_def)
qed

end
